theory Spec2Isabelle
  imports Complex_Main
begin

section \<open>JavaScript arithmetic used by the metronome\<close>

text \<open>
  JavaScript numbers are modelled by their exact values: integer-valued quantities
  (tempo, numerator, beat counter, array indices) as \<open>int\<close>, and coordinates, angles and
  times as \<open>real\<close>. Rounding of IEEE doubles is not modelled.

  The operator \<^verbatim>\<open>%\<close> is the truncated remainder: its result has the sign of the
  dividend.
\<close>

definition js_rem :: "int \<Rightarrow> int \<Rightarrow> int" where
  "js_rem a b = sgn a * (\<bar>a\<bar> mod \<bar>b\<bar>)"

definition js_trunc :: "real \<Rightarrow> int" where
  "js_trunc r = (if 0 \<le> r then \<lfloor>r\<rfloor> else \<lceil>r\<rceil>)"

definition js_rem_real :: "real \<Rightarrow> real \<Rightarrow> real" where
  "js_rem_real a b = a - b * of_int (js_trunc (a / b))"

text \<open>
  Reading \<^verbatim>\<open>points[i]\<close>: an index outside the array gives \<^verbatim>\<open>undefined\<close>, and the
  property access \<^verbatim>\<open>.x\<close> on it throws a TypeError.
\<close>

datatype error = TypeError

definition js_index :: "'a list \<Rightarrow> int \<Rightarrow> error + 'a" where
  "js_index xs i = (if 0 \<le> i \<and> i < int (length xs) then Inr (xs ! nat i) else Inl TypeError)"

section \<open>Geometry: polygon vertices and the travelling light\<close>

record point =
  x :: real
  y :: real

record vertex = point +
  angle :: real

text \<open>
  \<^verbatim>\<open>getPolygonPoints(sides, radius, centerX, centerY)\<close>: the \<^verbatim>\<open>for\<close> loop pushes one
  vertex per iteration; \<open>getPolygonPoints_loop\<close> is the loop from counter \<open>i\<close> with the
  array built so far.
\<close>

definition angleOffset :: real where
  "angleOffset = - pi / 2"

definition polygonVertex :: "int \<Rightarrow> real \<Rightarrow> real \<Rightarrow> real \<Rightarrow> int \<Rightarrow> vertex" where
  "polygonVertex sides radius centerX centerY i =
     (let a = angleOffset + (2 * pi * of_int i) / of_int sides
      in \<lparr> x = centerX + radius * cos a, y = centerY + radius * sin a, angle = a \<rparr>)"

function getPolygonPoints_loop ::
  "int \<Rightarrow> real \<Rightarrow> real \<Rightarrow> real \<Rightarrow> int \<Rightarrow> vertex list \<Rightarrow> vertex list" where
  "getPolygonPoints_loop sides radius centerX centerY i points =
     (if i < sides
      then getPolygonPoints_loop sides radius centerX centerY (i + 1)
             (points @ [polygonVertex sides radius centerX centerY i])
      else points)"
  by pat_completeness auto
termination
  by (relation "measure (\<lambda>(sides, radius, centerX, centerY, i, points). nat (sides - i))") auto

declare getPolygonPoints_loop.simps [simp del]

definition getPolygonPoints :: "int \<Rightarrow> real \<Rightarrow> real \<Rightarrow> real \<Rightarrow> vertex list" where
  "getPolygonPoints sides radius centerX centerY =
     getPolygonPoints_loop sides radius centerX centerY 0 []"

text \<open>
  \<^verbatim>\<open>interpolatePosition(points, progress)\<close>. The two array reads can miss the array
  (a negative remainder for negative progress), which throws.
\<close>

definition interpolatePosition :: "vertex list \<Rightarrow> real \<Rightarrow> error + point" where
  "interpolatePosition points progress =
     (if length points = 0 then Inr \<lparr> x = 0, y = 0 \<rparr>
      else
        let totalSegments = int (length points);
            segmentProgress = progress * of_int totalSegments;
            currentSegment = js_rem \<lfloor>segmentProgress\<rfloor> totalSegments;
            segmentT = segmentProgress - of_int \<lfloor>segmentProgress\<rfloor>
        in case js_index points currentSegment of
             Inl e \<Rightarrow> Inl e
           | Inr startPoint \<Rightarrow>
               (case js_index points (js_rem (currentSegment + 1) totalSegments) of
                  Inl e \<Rightarrow> Inl e
                | Inr endPoint \<Rightarrow>
                    Inr \<lparr> x = x startPoint + (x endPoint - x startPoint) * segmentT,
                          y = y startPoint + (y endPoint - y startPoint) * segmentT \<rparr>))"

text \<open>
  The constants of the component and the marker position computed by \<^verbatim>\<open>animate\<close>:
  \<open>animate_measureProgress\<close> is its \<^verbatim>\<open>measureProgress\<close> and \<open>animate_newPos\<close> its
  \<^verbatim>\<open>newPos\<close>, a function of the numerator and the measure progress.
\<close>

definition svgSize :: real where
  "svgSize = 420"

definition center :: real where
  "center = svgSize / 2"

definition shapeRadius :: real where
  "shapeRadius = 150"

definition animate_measureProgress :: "real \<Rightarrow> int \<Rightarrow> real \<Rightarrow> real" where
  "animate_measureProgress transportBpm numer transportSeconds =
     (let beatDurationSec = 60 / transportBpm;
          measureDurationSec = beatDurationSec * of_int numer
      in js_rem_real transportSeconds measureDurationSec / measureDurationSec)"

definition animate_newPos :: "int \<Rightarrow> real \<Rightarrow> error + point" where
  "animate_newPos numer measureProgress =
     (if numer = 1 then Inr \<lparr> x = center, y = center \<rparr>
      else if numer = 2 then
        (let x' = center - shapeRadius + (shapeRadius * 2 * measureProgress)
         in Inr \<lparr> x = x', y = center \<rparr>)
      else interpolatePosition (getPolygonPoints numer shapeRadius center center) measureProgress)"

subsection \<open>Vocabulary of the specification\<close>

text \<open>
  The specification speaks of degrees, of the point at a fraction \<open>t\<close> of the edge that
  leaves vertex \<open>k\<close>, and of positions as coordinate pairs.
\<close>

definition rad_of_deg :: "real \<Rightarrow> real" where
  "rad_of_deg d = d * pi / 180"

definition edge_point :: "vertex list \<Rightarrow> nat \<Rightarrow> real \<Rightarrow> point" where
  "edge_point ps k t =
     \<lparr> x = x (ps ! k) + (x (ps ! (Suc k mod length ps)) - x (ps ! k)) * t,
       y = y (ps ! k) + (y (ps ! (Suc k mod length ps)) - y (ps ! k)) * t \<rparr>"

definition coords :: "error + point \<Rightarrow> real \<times> real" where
  "coords r = (x (projr r), y (projr r))"

section \<open>The Metronome component\<close>

subsection \<open>State\<close>

text \<open>
  The component's \<^verbatim>\<open>useState\<close> values and \<^verbatim>\<open>useRef\<close> cells, together with the parts of
  the Tone.js runtime that the component drives: the transport (running flag, elapsed
  seconds, tempo), the sounds triggered so far, the callbacks waiting in \<^verbatim>\<open>Tone.Draw\<close>
  and the pending \<^verbatim>\<open>setTimeout\<close> timers.
\<close>

record time_signature =
  numerator :: int
  denominator :: int

text \<open>The options of a \<^verbatim>\<open>Tone.MembraneSynth\<close>, its envelope flattened, and its volume.\<close>

record synth =
  pitchDecay :: real
  octaves :: real
  attack :: real
  decay :: real
  sustain :: real
  release :: real
  volume :: real

datatype tone_note = C2 | G1

text \<open>The pitch of a note name as its MIDI number (scientific pitch notation).\<close>

fun midi :: "tone_note \<Rightarrow> int" where
  "midi C2 = 36"
| "midi G1 = 31"

text \<open>One call of \<^verbatim>\<open>triggerAttackRelease(note, duration, time)\<close> on a synth.\<close>

record sound =
  voice :: synth
  pitch :: tone_note
  noteLength :: string
  soundTime :: real

text \<open>
  One callback handed to \<^verbatim>\<open>Tone.Draw.schedule\<close>, with the time it is scheduled for and
  the two values its closure captured.
\<close>

record draw_job =
  drawTime :: real
  beatIndex :: int
  isFirstBeat :: bool

text \<open>A pending \<^verbatim>\<open>setTimeout\<close> of the flash clear: the id it returned and its delay.\<close>

record timer =
  timerId :: nat
  delayMs :: real

record tone_transport =
  started :: bool
  seconds :: real
  bpmValue :: real

text \<open>The refs of one \<^verbatim>\<open>useScrollControl\<close> instance.\<close>

record scroll_control =
  isDragging :: bool
  startY :: real
  accumulatedDelta :: real

record metronome =
  isPlaying :: bool
  audioReady :: bool
  audioError :: bool
  bpm :: int
  beatActive :: bool
  timeSignature :: time_signature
  currentBeat :: int
  isDownbeat :: bool
  lightPosition :: point
  synthRef :: "synth option"
  accentSynthRef :: "synth option"
  loopRef :: bool
  beatCountRef :: int
  animationFrameRef :: bool
  bpmRef :: scroll_control
  numeratorRef :: scroll_control
  transport :: tone_transport
  sounds :: "sound list"
  drawQueue :: "draw_job list"
  timeouts :: "timer list"
  nextTimerId :: nat

text \<open>
  \<open>loopRef\<close> tells whether a started \<^verbatim>\<open>Tone.Loop\<close> is held, \<open>animationFrameRef\<close> whether
  a frame request is pending. The initial values are those of the hooks; the transport
  of Tone.js starts stopped, at zero, at 120 beats per minute.
\<close>

definition initial :: metronome where
  "initial =
     \<lparr> isPlaying = False, audioReady = False, audioError = False, bpm = 120,
       beatActive = False, timeSignature = \<lparr> numerator = 4, denominator = 4 \<rparr>,
       currentBeat = 0, isDownbeat = False, lightPosition = \<lparr> x = 210, y = 60 \<rparr>,
       synthRef = None, accentSynthRef = None, loopRef = False, beatCountRef = 0,
       animationFrameRef = False,
       bpmRef = \<lparr> isDragging = False, startY = 0, accumulatedDelta = 0 \<rparr>,
       numeratorRef = \<lparr> isDragging = False, startY = 0, accumulatedDelta = 0 \<rparr>,
       transport = \<lparr> started = False, seconds = 0, bpmValue = 120 \<rparr>,
       sounds = [], drawQueue = [], timeouts = [], nextTimerId = 0 \<rparr>"

subsection \<open>Tempo and meter handlers\<close>

definition handleBpmChange :: "int \<Rightarrow> metronome \<Rightarrow> metronome" where
  "handleBpmChange delta s = s\<lparr> bpm := min 200 (max 40 (bpm s + delta)) \<rparr>"

definition handleNumeratorChange :: "int \<Rightarrow> metronome \<Rightarrow> metronome" where
  "handleNumeratorChange delta s =
     s\<lparr> timeSignature := (timeSignature s)
          \<lparr> numerator := min 12 (max 1 (numerator (timeSignature s) + delta)) \<rparr> \<rparr>"

subsection \<open>The drag control\<close>

text \<open>
  The three pointer handlers of \<^verbatim>\<open>useScrollControl(onChange, disabled)\<close>. A handler
  returns the new refs; \<open>handlePointerMove\<close> also returns the argument of the call of
  \<^verbatim>\<open>onChange\<close> when it makes one. The changes to the element's class, the pointer
  capture and the cursor are left out.
\<close>

definition handlePointerDown :: "bool \<Rightarrow> real \<Rightarrow> scroll_control \<Rightarrow> scroll_control" where
  "handlePointerDown disabled clientY c =
     (if disabled then c
      else c\<lparr> isDragging := True, startY := clientY, accumulatedDelta := 0 \<rparr>)"

definition handlePointerMove ::
  "bool \<Rightarrow> real \<Rightarrow> scroll_control \<Rightarrow> scroll_control \<times> int option" where
  "handlePointerMove disabled clientY c =
     (if \<not> isDragging c \<or> disabled then (c, None)
      else
        let deltaY = startY c - clientY;
            threshold = 10;
            totalDelta = accumulatedDelta c + deltaY
        in if \<bar>totalDelta\<bar> \<ge> threshold
           then let steps = \<lfloor>totalDelta / threshold\<rfloor>
                in (c\<lparr> startY := clientY, accumulatedDelta := js_rem_real totalDelta threshold \<rparr>,
                    Some steps)
           else (c, None))"

definition handlePointerUp :: "scroll_control \<Rightarrow> scroll_control" where
  "handlePointerUp c = (if isDragging c then c\<lparr> isDragging := False \<rparr> else c)"

subsection \<open>Audio initialisation and the play button\<close>

definition beatSynth :: synth where
  "beatSynth = \<lparr> pitchDecay = 0.008, octaves = 2, attack = 0.001, decay = 0.3, sustain = 0,
                  release = 0.1, volume = - 10 \<rparr>"

definition accentSynth :: synth where
  "accentSynth = \<lparr> pitchDecay = 0.01, octaves = 2.5, attack = 0.001, decay = 0.4, sustain = 0,
                    release = 0.15, volume = - 4 \<rparr>"

text \<open>
  \<^verbatim>\<open>ensureAudioReady\<close>, run to completion: \<open>contextRunning\<close> tells whether the audio
  context reports \<^verbatim>\<open>running\<close> after the two resume attempts have settled. The result
  is the returned flag and the new state.
\<close>

definition ensureAudioReady :: "bool \<Rightarrow> metronome \<Rightarrow> bool \<times> metronome" where
  "ensureAudioReady contextRunning s =
     (if audioReady s then (True, s)
      else
        let s1 = s\<lparr> audioError := False \<rparr>
        in if \<not> contextRunning then (False, s1\<lparr> audioError := True \<rparr>)
           else
             let s2 = (if synthRef s1 = None then s1\<lparr> synthRef := Some beatSynth \<rparr> else s1);
                 s3 = (if accentSynthRef s2 = None then s2\<lparr> accentSynthRef := Some accentSynth \<rparr>
                       else s2)
             in (True, s3\<lparr> audioReady := True, audioError := False \<rparr>))"

definition handlePlayToggle :: "bool \<Rightarrow> metronome \<Rightarrow> metronome" where
  "handlePlayToggle contextRunning s =
     (if isPlaying s then s\<lparr> isPlaying := False \<rparr>
      else
        case ensureAudioReady contextRunning s of
          (ready, s1) \<Rightarrow>
            if \<not> ready then s1\<lparr> audioError := True \<rparr> else s1\<lparr> isPlaying := True \<rparr>)"

subsection \<open>Effects\<close>

text \<open>The three calls the component makes on \<^verbatim>\<open>Tone.Transport\<close>.\<close>

definition transport_start :: "tone_transport \<Rightarrow> tone_transport" where
  "transport_start t = t\<lparr> started := True \<rparr>"

definition transport_stop :: "tone_transport \<Rightarrow> tone_transport" where
  "transport_stop t = t\<lparr> started := False \<rparr>"

definition transport_set_position :: "real \<Rightarrow> tone_transport \<Rightarrow> tone_transport" where
  "transport_set_position p t = t\<lparr> seconds := p \<rparr>"

text \<open>The effect "Update BPM".\<close>

definition updateBpmEffect :: "metronome \<Rightarrow> metronome" where
  "updateBpmEffect s =
     (if audioReady s then s\<lparr> transport := (transport s)\<lparr> bpmValue := of_int (bpm s) \<rparr> \<rparr>
      else s)"

text \<open>
  The effect "Start/stop animation loop". For three or more beats the polygon has a
  vertex 0, so the read \<^verbatim>\<open>points[0]\<close> is in range.
\<close>

definition animationEffect :: "metronome \<Rightarrow> metronome" where
  "animationEffect s =
     (if isPlaying s \<and> audioReady s then s\<lparr> animationFrameRef := True \<rparr>
      else
        let s1 = s\<lparr> animationFrameRef := False \<rparr>;
            numer = numerator (timeSignature s)
        in if numer \<ge> 3 then
             let points = getPolygonPoints numer shapeRadius center center
             in s1\<lparr> lightPosition := \<lparr> x = x (points ! 0), y = y (points ! 0) \<rparr> \<rparr>
           else if numer = 2 then s1\<lparr> lightPosition := \<lparr> x = center - shapeRadius, y = center \<rparr> \<rparr>
           else s1\<lparr> lightPosition := \<lparr> x = center, y = center \<rparr> \<rparr>)"

text \<open>The effect "Setup loop".\<close>

definition setupLoopEffect :: "metronome \<Rightarrow> metronome" where
  "setupLoopEffect s =
     (if isPlaying s \<and> audioReady s then
        s\<lparr> beatCountRef := 0, loopRef := True, transport := transport_start (transport s) \<rparr>
      else
        s\<lparr> loopRef := False,
           transport := transport_set_position 0 (transport_stop (transport s)),
           beatCountRef := 0, currentBeat := 0, beatActive := False, isDownbeat := False \<rparr>)"

text \<open>
  After a handler has changed the state, the component renders again and the effects
  whose dependencies changed run, in the order in which the component declares them.
  \<open>prev\<close> is the state of the previous render.
\<close>

definition runEffects :: "metronome \<Rightarrow> metronome \<Rightarrow> metronome" where
  "runEffects prev s =
     (let s1 = (if bpm s \<noteq> bpm prev \<or> audioReady s \<noteq> audioReady prev
                then updateBpmEffect s else s);
          s2 = (if isPlaying s \<noteq> isPlaying prev \<or> audioReady s \<noteq> audioReady prev
                   \<or> timeSignature s \<noteq> timeSignature prev
                then animationEffect s1 else s1);
          s3 = (if isPlaying s \<noteq> isPlaying prev \<or> audioReady s \<noteq> audioReady prev
                   \<or> numerator (timeSignature s) \<noteq> numerator (timeSignature prev)
                then setupLoopEffect s2 else s2)
      in s3)"

text \<open>The state after the first render: every effect has run once.\<close>

definition mounted :: metronome where
  "mounted = setupLoopEffect (animationEffect (updateBpmEffect initial))"

subsection \<open>The beat\<close>

text \<open>
  \<^verbatim>\<open>triggerBeat(time)\<close>, the callback of the loop. It returns at once when a synth is
  missing.
\<close>

definition triggerBeat :: "real \<Rightarrow> metronome \<Rightarrow> metronome" where
  "triggerBeat time s =
     (case (synthRef s, accentSynthRef s) of
        (Some synthCurrent, Some accentCurrent) \<Rightarrow>
          let beatIndex' = js_rem (beatCountRef s) (numerator (timeSignature s));
              isFirstBeat' = (beatIndex' = 0)
          in s\<lparr> sounds := sounds s @
                   [if isFirstBeat'
                    then \<lparr> voice = accentCurrent, pitch = C2, noteLength = ''16n'', soundTime = time \<rparr>
                    else \<lparr> voice = synthCurrent, pitch = G1, noteLength = ''16n'', soundTime = time \<rparr>],
                 drawQueue := drawQueue s @
                   [\<lparr> drawTime = time, beatIndex = beatIndex', isFirstBeat = isFirstBeat' \<rparr>],
                 beatCountRef := beatCountRef s + 1 \<rparr>
      | _ \<Rightarrow> s)"

text \<open>
  The callback given to \<^verbatim>\<open>Tone.Draw.schedule\<close>, run for a job, and the callback it hands
  to \<^verbatim>\<open>setTimeout\<close>.
\<close>

definition drawCallback :: "draw_job \<Rightarrow> metronome \<Rightarrow> metronome" where
  "drawCallback job s =
     (let beatDuration = (60 / bpmValue (transport s)) * 1000;
          fadeDuration = beatDuration * 0.8
      in s\<lparr> currentBeat := beatIndex job, isDownbeat := isFirstBeat job, beatActive := True,
             timeouts := timeouts s @ [\<lparr> timerId = nextTimerId s, delayMs = fadeDuration \<rparr>],
             nextTimerId := nextTimerId s + 1 \<rparr>)"

definition flashClear :: "metronome \<Rightarrow> metronome" where
  "flashClear s = s\<lparr> beatActive := False, isDownbeat := False \<rparr>"

subsection \<open>The travelling light\<close>

text \<open>
  \<^verbatim>\<open>animate\<close>, the frame callback. When \<open>interpolatePosition\<close> throws, the position is
  not set and no further frame is requested.
\<close>

definition animate :: "metronome \<Rightarrow> metronome" where
  "animate s =
     (if \<not> isPlaying s \<or> \<not> audioReady s then s\<lparr> animationFrameRef := False \<rparr>
      else
        let numer = numerator (timeSignature s);
            measureProgress =
              animate_measureProgress (bpmValue (transport s)) numer (seconds (transport s))
        in case animate_newPos numer measureProgress of
             Inl e \<Rightarrow> s\<lparr> animationFrameRef := False \<rparr>
           | Inr newPos \<Rightarrow> s\<lparr> lightPosition := newPos, animationFrameRef := True \<rparr>)"

subsection \<open>Events\<close>

text \<open>
  What can happen to a mounted component: a click on the play button, a click on an
  arrow button, the pointer events of the two drag controls, a tick of the loop with its
  audio time, the run of the oldest waiting draw callback, the firing of a pending timer,
  an animation frame, and the passing of time. A handler runs to completion together
  with the effects it causes before the next event.
\<close>

datatype control = BpmControl | BeatsControl

datatype event =
    ClickPlay bool
  | ClickArrow control int
  | PointerDown control real
  | PointerMove control real
  | PointerUp control
  | Tick real
  | Draw
  | Timeout nat
  | Frame
  | Elapse real

text \<open>The \<^verbatim>\<open>onClick\<close> of an arrow button: \<^verbatim>\<open>!isPlaying && handle...Change(delta)\<close>.\<close>

definition arrowClick :: "control \<Rightarrow> int \<Rightarrow> metronome \<Rightarrow> metronome" where
  "arrowClick c delta s =
     (if \<not> isPlaying s
      then (case c of BpmControl \<Rightarrow> handleBpmChange delta s
                    | BeatsControl \<Rightarrow> handleNumeratorChange delta s)
      else s)"

text \<open>The drag controls are created with \<^verbatim>\<open>disabled = isPlaying\<close>.\<close>

definition pointerDown :: "control \<Rightarrow> real \<Rightarrow> metronome \<Rightarrow> metronome" where
  "pointerDown c clientY s =
     (case c of
        BpmControl \<Rightarrow> s\<lparr> bpmRef := handlePointerDown (isPlaying s) clientY (bpmRef s) \<rparr>
      | BeatsControl \<Rightarrow>
          s\<lparr> numeratorRef := handlePointerDown (isPlaying s) clientY (numeratorRef s) \<rparr>)"

definition pointerMove :: "control \<Rightarrow> real \<Rightarrow> metronome \<Rightarrow> metronome" where
  "pointerMove c clientY s =
     (case c of
        BpmControl \<Rightarrow>
          (case handlePointerMove (isPlaying s) clientY (bpmRef s) of
             (c', None) \<Rightarrow> s\<lparr> bpmRef := c' \<rparr>
           | (c', Some steps) \<Rightarrow> handleBpmChange steps (s\<lparr> bpmRef := c' \<rparr>))
      | BeatsControl \<Rightarrow>
          (case handlePointerMove (isPlaying s) clientY (numeratorRef s) of
             (c', None) \<Rightarrow> s\<lparr> numeratorRef := c' \<rparr>
           | (c', Some steps) \<Rightarrow> handleNumeratorChange steps (s\<lparr> numeratorRef := c' \<rparr>)))"

definition pointerUp :: "control \<Rightarrow> metronome \<Rightarrow> metronome" where
  "pointerUp c s =
     (case c of
        BpmControl \<Rightarrow> s\<lparr> bpmRef := handlePointerUp (bpmRef s) \<rparr>
      | BeatsControl \<Rightarrow> s\<lparr> numeratorRef := handlePointerUp (numeratorRef s) \<rparr>)"

definition fireTimeout :: "nat \<Rightarrow> metronome \<Rightarrow> metronome" where
  "fireTimeout i s =
     (if i \<in> set (map timerId (timeouts s))
      then flashClear (s\<lparr> timeouts := filter (\<lambda>t. timerId t \<noteq> i) (timeouts s) \<rparr>)
      else s)"

definition runDraw :: "metronome \<Rightarrow> metronome" where
  "runDraw s =
     (case drawQueue s of
        [] \<Rightarrow> s
      | job # rest \<Rightarrow> drawCallback job (s\<lparr> drawQueue := rest \<rparr>))"

definition elapse :: "real \<Rightarrow> metronome \<Rightarrow> metronome" where
  "elapse dt s =
     (if started (transport s) \<and> 0 \<le> dt
      then s\<lparr> transport := (transport s)\<lparr> seconds := seconds (transport s) + dt \<rparr> \<rparr>
      else s)"

fun step :: "event \<Rightarrow> metronome \<Rightarrow> metronome" where
  "step (ClickPlay contextRunning) s = runEffects s (handlePlayToggle contextRunning s)"
| "step (ClickArrow c delta) s = runEffects s (arrowClick c delta s)"
| "step (PointerDown c clientY) s = pointerDown c clientY s"
| "step (PointerMove c clientY) s = runEffects s (pointerMove c clientY s)"
| "step (PointerUp c) s = pointerUp c s"
| "step (Tick time) s = (if loopRef s \<and> started (transport s) then triggerBeat time s else s)"
| "step Draw s = runDraw s"
| "step (Timeout i) s = fireTimeout i s"
| "step Frame s = (if animationFrameRef s then animate s else s)"
| "step (Elapse dt) s = elapse dt s"

declare step.simps [simp del]

definition run :: "event list \<Rightarrow> metronome \<Rightarrow> metronome" where
  "run evs s = fold step evs s"

inductive reachable :: "metronome \<Rightarrow> bool" where
  reachable_mounted: "reachable mounted"
| reachable_step: "reachable s \<Longrightarrow> reachable (step e s)"

subsection \<open>Vocabulary for the properties\<close>

text \<open>Whether the dependencies of the effect "Setup loop" differ between two renders.\<close>

definition loopDepsChanged :: "metronome \<Rightarrow> metronome \<Rightarrow> bool" where
  "loopDepsChanged prev s \<longleftrightarrow>
     isPlaying s \<noteq> isPlaying prev \<or> audioReady s \<noteq> audioReady prev
     \<or> numerator (timeSignature s) \<noteq> numerator (timeSignature prev)"

text \<open>
  What holds of every state the component can reach: tempo and numerator are within
  their bounds, the beat counter is not negative, the synths are the two created by
  \<^verbatim>\<open>ensureAudioReady\<close> once the audio is ready and the transport then runs at the tempo
  of the state, playing needs ready audio, and a loop is held only while playing with the
  transport started.
\<close>

definition wellformed :: "metronome \<Rightarrow> bool" where
  "wellformed s \<longleftrightarrow>
     40 \<le> bpm s \<and> bpm s \<le> 200
   \<and> 1 \<le> numerator (timeSignature s) \<and> numerator (timeSignature s) \<le> 12
   \<and> 0 \<le> beatCountRef s
   \<and> 0 < bpmValue (transport s)
   \<and> (synthRef s = None \<or> synthRef s = Some beatSynth)
   \<and> (accentSynthRef s = None \<or> accentSynthRef s = Some accentSynth)
   \<and> (audioReady s \<longrightarrow> synthRef s = Some beatSynth \<and> accentSynthRef s = Some accentSynth
          \<and> bpmValue (transport s) = of_int (bpm s))
   \<and> (isPlaying s \<longrightarrow> audioReady s)
   \<and> (loopRef s \<longrightarrow> isPlaying s \<and> started (transport s))"

text \<open>The play button is the one control that starts or stops a session.\<close>

fun isClickPlay :: "event \<Rightarrow> bool" where
  "isClickPlay (ClickPlay r) = True"
| "isClickPlay e = False"

text \<open>A stopped session with ready audio: no loop, the transport at rest at zero.\<close>

definition stoppedIdle :: "metronome \<Rightarrow> bool" where
  "stoppedIdle s \<longleftrightarrow>
     \<not> isPlaying s \<and> audioReady s \<and> \<not> loopRef s \<and> \<not> started (transport s)
     \<and> seconds (transport s) = 0 \<and> beatCountRef s = 0"

text \<open>
  The events of beat \<open>k\<close> of a session whose first flash-clear timer gets the id
  \<open>firstId\<close>, each with the time in milliseconds at which it is due when nothing runs
  late: the tick and its visual update at \<open>k\<close> beats, the flash clear 0.8 beats later.
  The schedule of the first \<open>n\<close> beats is these events in the order of their due times.
\<close>

definition beatEvents :: "real \<Rightarrow> nat \<Rightarrow> nat \<Rightarrow> (real \<times> event) list" where
  "beatEvents beatMs firstId k =
     [(real k * beatMs, Tick (real k * beatMs / 1000)),
      (real k * beatMs, Draw),
      (real k * beatMs + 0.8 * beatMs, Timeout (firstId + k))]"

definition dueEvents :: "real \<Rightarrow> nat \<Rightarrow> nat \<Rightarrow> (real \<times> event) list" where
  "dueEvents beatMs firstId n = concat (map (beatEvents beatMs firstId) [0..<n])"

definition nominalSchedule :: "real \<Rightarrow> nat \<Rightarrow> nat \<Rightarrow> event list" where
  "nominalSchedule beatMs firstId n = map snd (sort_key fst (dueEvents beatMs firstId n))"

text \<open>
  A running session between two beats: the loop is held, no visual update is waiting and
  no flash-clear timer is pending.
\<close>

definition beatReady :: "metronome \<Rightarrow> bool" where
  "beatReady s \<longleftrightarrow> wellformed s \<and> loopRef s \<and> drawQueue s = [] \<and> timeouts s = []"

section \<open>The mobile audio unlock\<close>

text \<open>
  Time is counted in milliseconds from the call of \<^verbatim>\<open>unlockMobileAudio\<close>. A promise is
  modelled by how it settles: resolved with a value at a time, rejected at a time, or
  never. An asynchronous function is modelled by its outcome: it returns a value at a
  time, throws at a time, or never completes. Timers fire exactly when they are due.
\<close>

datatype 'a promise = Resolves nat 'a | Rejects nat | Pending

datatype 'a outcome = Returns nat 'a | Throws nat | Hangs

definition UNLOCK_TIMEOUT :: nat where
  "UNLOCK_TIMEOUT = 500"

text \<open>
  \<^verbatim>\<open>withTimeout(promise, timeoutMs, fallbackValue)\<close>, called at time \<open>now\<close>: the race of
  the promise with a timer that resolves with the fallback value. Where the program
  settles a promise at the very time at which its timeout is due, it does so from a timer
  set after that of the timeout, which therefore fires first: a promise that settles
  exactly when the timer is due loses the race.
\<close>

definition withTimeout :: "nat \<Rightarrow> 'a promise \<Rightarrow> nat \<Rightarrow> 'a \<Rightarrow> 'a promise" where
  "withTimeout now promise timeoutMs fallbackValue =
     (case promise of
        Resolves d v \<Rightarrow>
          if d < now + timeoutMs then Resolves d v
          else Resolves (now + timeoutMs) fallbackValue
      | Rejects d \<Rightarrow>
          if d < now + timeoutMs then Rejects d
          else Resolves (now + timeoutMs) fallbackValue
      | Pending \<Rightarrow> Resolves (now + timeoutMs) fallbackValue)"

text \<open>\<^verbatim>\<open>Promise.all\<close> of two promises.\<close>

fun promiseAll :: "'a promise \<Rightarrow> 'b promise \<Rightarrow> ('a \<times> 'b) promise" where
  "promiseAll (Rejects d) (Rejects e) = Rejects (min d e)"
| "promiseAll (Rejects d) q = Rejects d"
| "promiseAll p (Rejects e) = Rejects e"
| "promiseAll (Resolves d a) (Resolves e b) = Resolves (max d e) (a, b)"
| "promiseAll p q = Pending"

text \<open>
  A promise built with \<^verbatim>\<open>new Promise((resolve) => ...)\<close> whose body may call
  \<^verbatim>\<open>resolve\<close> several times: the earliest call settles it, the first listed among
  calls at the same time.
\<close>

fun firstResolve :: "(nat \<times> 'a) list \<Rightarrow> 'a promise" where
  "firstResolve [] = Pending"
| "firstResolve ((t, v) # calls) =
     (case firstResolve calls of
        Resolves t' v' \<Rightarrow> if t' < t then Resolves t' v' else Resolves t v
      | other \<Rightarrow> Resolves t v)"

text \<open>
  What the browser does with the silent audio element: whether building the element or
  calling \<^verbatim>\<open>play()\<close> throws, what \<^verbatim>\<open>play()\<close> returns, and when the events
  \<^verbatim>\<open>ended\<close>, \<^verbatim>\<open>error\<close> and \<^verbatim>\<open>abort\<close> arrive, if they do.
\<close>

datatype play_result = PlayUndefined | PlayResolves nat | PlayRejects nat | PlayPending

record html_audio_env =
  audioThrows :: bool
  playResult :: play_result
  endedAt :: "nat option"
  errorAt :: "nat option"
  abortAt :: "nat option"

definition eventCall :: "nat option \<Rightarrow> 'a \<Rightarrow> (nat \<times> 'a) list" where
  "eventCall when v = (case when of None \<Rightarrow> [] | Some t \<Rightarrow> [(t, v)])"

definition playSilentHtmlAudio :: "html_audio_env \<Rightarrow> bool promise" where
  "playSilentHtmlAudio env =
     (if audioThrows env then Resolves 0 False
      else firstResolve
             (eventCall (endedAt env) True @ eventCall (errorAt env) False
              @ eventCall (abortAt env) False
              @ (case playResult env of
                   PlayUndefined \<Rightarrow> [(50, True)]
                 | PlayResolves d \<Rightarrow> [(d + 50, True)]
                 | PlayRejects d \<Rightarrow> [(d, False)]
                 | PlayPending \<Rightarrow> [])))"

text \<open>
  The audio context: the state it reports at each time, and what \<^verbatim>\<open>resume()\<close> does
  when it is called from the \<^verbatim>\<open>try\<close> block and from the \<^verbatim>\<open>catch\<close> block (each block
  calls it at most once): it throws, or returns a promise that resolves or rejects after
  a delay, or that never settles.
\<close>

datatype context_state = Suspended | Running | Closed

datatype resume_result = ResumeThrows | ResumeResolves nat | ResumeRejects nat | ResumePending

record audio_context =
  stateAt :: "nat \<Rightarrow> context_state"
  resumeInTry :: resume_result
  resumeInCatch :: resume_result

record buffer_env =
  bufferThrows :: bool
  onendedAt :: "nat option"

definition playSilentBuffer :: "audio_context option \<Rightarrow> buffer_env \<Rightarrow> bool promise" where
  "playSilentBuffer audioContext env =
     (case audioContext of
        None \<Rightarrow> Resolves 0 False
      | Some c \<Rightarrow>
          if stateAt c 0 = Closed then Resolves 0 False
          else if bufferThrows env then Resolves 0 False
          else firstResolve (eventCall (onendedAt env) True @ [(50, True)]))"

text \<open>
  The body of the \<^verbatim>\<open>try\<close> block of \<^verbatim>\<open>unlockMobileAudio\<close>. An awaited promise that
  rejects and a call that throws end it with the outcome \<open>Throws\<close>. With no context the
  last disjunct of \<^verbatim>\<open>success\<close> is \<^verbatim>\<open>null\<close>, which counts as false.
\<close>

definition unlock_try ::
  "audio_context option \<Rightarrow> html_audio_env \<Rightarrow> buffer_env \<Rightarrow> bool outcome" where
  "unlock_try audioContext html buf =
     (case withTimeout 0
             (promiseAll
                (withTimeout 0 (playSilentHtmlAudio html) UNLOCK_TIMEOUT False)
                (withTimeout 0 (playSilentBuffer audioContext buf) UNLOCK_TIMEOUT False))
             (UNLOCK_TIMEOUT + 100) (False, False) of
        Pending \<Rightarrow> Hangs
      | Rejects t \<Rightarrow> Throws t
      | Resolves t1 (htmlAudioResult, bufferResult) \<Rightarrow>
          (case audioContext of
             None \<Rightarrow> Returns t1 (htmlAudioResult \<or> bufferResult)
           | Some c \<Rightarrow>
               if stateAt c t1 = Suspended then
                 (case resumeInTry c of
                    ResumeThrows \<Rightarrow> Throws t1
                  | result \<Rightarrow>
                      (case withTimeout t1
                              (case result of
                                 ResumeResolves d \<Rightarrow> Resolves (t1 + d) ()
                               | ResumeRejects d \<Rightarrow> Resolves (t1 + d) ()
                               | other \<Rightarrow> Pending)
                              UNLOCK_TIMEOUT () of
                         Pending \<Rightarrow> Hangs
                       | Rejects t \<Rightarrow> Throws t
                       | Resolves t2 u \<Rightarrow>
                           Returns t2
                             (htmlAudioResult \<or> bufferResult \<or> stateAt c t2 = Running)))
               else Returns t1 (htmlAudioResult \<or> bufferResult \<or> stateAt c t1 = Running)))"

text \<open>
  The \<^verbatim>\<open>catch\<close> block, entered at time \<open>t\<close>: an inner \<^verbatim>\<open>try\<close> awaits \<^verbatim>\<open>resume()\<close>
  without a timeout and ignores what it throws.
\<close>

definition unlock_catch :: "audio_context option \<Rightarrow> nat \<Rightarrow> bool outcome" where
  "unlock_catch audioContext t =
     (case audioContext of
        None \<Rightarrow> Returns t False
      | Some c \<Rightarrow>
          if stateAt c t = Suspended then
            (case resumeInCatch c of
               ResumeThrows \<Rightarrow> Returns t (stateAt c t = Running)
             | ResumeResolves d \<Rightarrow> Returns (t + d) (stateAt c (t + d) = Running)
             | ResumeRejects d \<Rightarrow> Returns (t + d) (stateAt c (t + d) = Running)
             | ResumePending \<Rightarrow> Hangs)
          else Returns t (stateAt c t = Running))"

definition unlockMobileAudio ::
  "audio_context option \<Rightarrow> html_audio_env \<Rightarrow> buffer_env \<Rightarrow> bool outcome" where
  "unlockMobileAudio audioContext html buf =
     (case unlock_try audioContext html buf of
        Throws t \<Rightarrow> unlock_catch audioContext t
      | result \<Rightarrow> result)"

text \<open>
  A browser in which nothing ever answers: the context stays suspended, \<^verbatim>\<open>resume()\<close>
  and \<^verbatim>\<open>play()\<close> return promises that never settle, and no event arrives.
\<close>

definition silentContext :: audio_context where
  "silentContext =
     \<lparr> stateAt = (\<lambda>t. Suspended), resumeInTry = ResumePending, resumeInCatch = ResumePending \<rparr>"

definition silentHtmlAudio :: html_audio_env where
  "silentHtmlAudio =
     \<lparr> audioThrows = False, playResult = PlayPending, endedAt = None, errorAt = None,
       abortAt = None \<rparr>"

definition silentBuffer :: buffer_env where
  "silentBuffer = \<lparr> bufferThrows = False, onendedAt = None \<rparr>"

section \<open>Geometry: verified properties\<close>

subsection \<open>The vertex loop\<close>

lemma getPolygonPoints_loop_eq:
  "getPolygonPoints_loop sides radius centerX centerY i points =
     points @ map (polygonVertex sides radius centerX centerY) [i..sides - 1]"
proof (induction sides radius centerX centerY i points rule: getPolygonPoints_loop.induct)
  case (1 sides radius centerX centerY i points)
  show ?case
  proof (cases "i < sides")
    case True
    then have "[i..sides - 1] = i # [i + 1..sides - 1]"
      by (simp add: upto_rec1)
    with True 1 show ?thesis
      by (subst getPolygonPoints_loop.simps) simp
  next
    case False
    then show ?thesis
      by (subst getPolygonPoints_loop.simps) simp
  qed
qed

lemma getPolygonPoints_eq:
  "getPolygonPoints sides radius centerX centerY =
     map (polygonVertex sides radius centerX centerY) [0..sides - 1]"
  by (simp add: getPolygonPoints_def getPolygonPoints_loop_eq)

lemma length_getPolygonPoints:
  "length (getPolygonPoints sides radius centerX centerY) = nat sides"
  by (simp add: getPolygonPoints_eq)

lemma nth_getPolygonPoints:
  "k < nat sides \<Longrightarrow>
     getPolygonPoints sides radius centerX centerY ! k =
       polygonVertex sides radius centerX centerY (int k)"
  by (simp add: getPolygonPoints_eq)

text \<open>
  C3. For every integer numerator \<open>n\<close> in \<open>[1, 12]\<close>, \<open>getPolygonPoints\<close> returns exactly
  \<open>n\<close> points in order; point \<open>k\<close> lies on the circle at the angle \<open>-90 + k * 360 / n\<close>
  degrees, so consecutive points are \<open>360 / n\<close> degrees apart, and the first point is at the
  top of the circle (angle \<open>-90\<close> degrees, directly above the centre in screen coordinates).
\<close>

theorem getPolygonPoints_regular:
  "1 \<le> n \<and> n \<le> 12 \<longrightarrow>
     (let ps = getPolygonPoints n radius centerX centerY in
        length ps = nat n
      \<and> (\<forall>k < nat n. angle (ps ! k) = rad_of_deg (- 90) + of_nat k * rad_of_deg (360 / of_int n)
             \<and> x (ps ! k) = centerX + radius * cos (angle (ps ! k))
             \<and> y (ps ! k) = centerY + radius * sin (angle (ps ! k)))
      \<and> (\<forall>k. Suc k < nat n \<longrightarrow> angle (ps ! Suc k) - angle (ps ! k) = rad_of_deg (360 / of_int n))
      \<and> ps ! 0 = \<lparr> x = centerX, y = centerY - radius, angle = rad_of_deg (- 90) \<rparr>)"
proof (intro impI)
  assume n: "1 \<le> n \<and> n \<le> 12"
  let ?ps = "getPolygonPoints n radius centerX centerY"
  have len: "length ?ps = nat n"
    by (rule length_getPolygonPoints)
  have ang: "angle (?ps ! k) = rad_of_deg (- 90) + of_nat k * rad_of_deg (360 / of_int n)"
    if "k < nat n" for k
    using that n
    by (simp add: nth_getPolygonPoints polygonVertex_def Let_def angleOffset_def rad_of_deg_def
          field_simps)
  have xy: "x (?ps ! k) = centerX + radius * cos (angle (?ps ! k))
          \<and> y (?ps ! k) = centerY + radius * sin (angle (?ps ! k))"
    if "k < nat n" for k
    using that by (simp add: nth_getPolygonPoints polygonVertex_def Let_def)
  have step: "angle (?ps ! Suc k) - angle (?ps ! k) = rad_of_deg (360 / of_int n)"
    if "Suc k < nat n" for k
  proof -
    from that have "k < nat n" by simp
    then show ?thesis
      using ang [OF that] ang [of k] by (simp add: algebra_simps)
  qed
  have top: "?ps ! 0 = \<lparr> x = centerX, y = centerY - radius, angle = rad_of_deg (- 90) \<rparr>"
    using n
    by (simp add: nth_getPolygonPoints polygonVertex_def Let_def angleOffset_def rad_of_deg_def)
  show "let ps = ?ps in
        length ps = nat n
      \<and> (\<forall>k < nat n. angle (ps ! k) = rad_of_deg (- 90) + of_nat k * rad_of_deg (360 / of_int n)
             \<and> x (ps ! k) = centerX + radius * cos (angle (ps ! k))
             \<and> y (ps ! k) = centerY + radius * sin (angle (ps ! k)))
      \<and> (\<forall>k. Suc k < nat n \<longrightarrow> angle (ps ! Suc k) - angle (ps ! k) = rad_of_deg (360 / of_int n))
      \<and> ps ! 0 = \<lparr> x = centerX, y = centerY - radius, angle = rad_of_deg (- 90) \<rparr>"
    unfolding Let_def using len ang xy step top by blast
qed

theorem getPolygonPoints_regular_witness:
  "(1::int) \<le> 4 \<and> (4::int) \<le> 12
   \<and> length (getPolygonPoints 4 150 210 210) = 4
   \<and> (1::nat) < nat 4
   \<and> angle (getPolygonPoints 4 150 210 210 ! 1) = rad_of_deg (- 90) + 1 * rad_of_deg (360 / 4)
   \<and> Suc 0 < nat 4
   \<and> angle (getPolygonPoints 4 150 210 210 ! Suc 0) - angle (getPolygonPoints 4 150 210 210 ! 0)
        = rad_of_deg (360 / 4)
   \<and> getPolygonPoints 4 150 210 210 ! 0 = \<lparr> x = 210, y = 60, angle = rad_of_deg (- 90) \<rparr>"
  using getPolygonPoints_regular [of 4 150 210 210]
  by (simp add: Let_def)

subsection \<open>Interpolation along the polygon\<close>

lemma js_rem_nonneg: "0 \<le> a \<Longrightarrow> 0 < b \<Longrightarrow> js_rem a b = a mod b"
  by (cases "a = 0") (simp_all add: js_rem_def)

lemma interpolatePosition_nonneg:
  assumes "ps \<noteq> []" and "0 \<le> p"
  shows "interpolatePosition ps p =
           Inr (edge_point ps (nat (\<lfloor>p * real (length ps)\<rfloor> mod int (length ps)))
                  (frac (p * real (length ps))))"
proof -
  let ?N = "int (length ps)"
  let ?f = "\<lfloor>p * real (length ps)\<rfloor>"
  let ?c = "?f mod ?N"
  from assms have N: "0 < ?N" by simp
  from assms have f0: "0 \<le> ?f" by simp
  have c: "0 \<le> ?c" "?c < ?N" using N by simp_all
  have r1: "js_rem ?f ?N = ?c" using f0 N by (rule js_rem_nonneg)
  have r2: "js_rem (?c + 1) ?N = (?c + 1) mod ?N"
    using c N by (intro js_rem_nonneg) simp_all
  have c2: "0 \<le> (?c + 1) mod ?N" "(?c + 1) mod ?N < ?N" using N by simp_all
  have n2: "nat ((?c + 1) mod ?N) = Suc (nat ?c) mod length ps"
    using c by (simp add: nat_mod_distrib nat_add_distrib)
  show ?thesis
    using assms(1) c c2
    by (simp add: interpolatePosition_def Let_def r1 r2 js_index_def n2 edge_point_def frac_def
             del: of_nat_mult)
qed

lemma edge_interval:
  assumes "ps \<noteq> []" and "k < length ps"
    and "real k / real (length ps) \<le> p" and "p \<le> real (Suc k) / real (length ps)"
  shows "interpolatePosition ps p = Inr (edge_point ps k (p * real (length ps) - real k))"
proof -
  let ?N = "length ps"
  from assms have N: "0 < real ?N" by simp
  from assms(3) N have lo: "real k \<le> p * real ?N"
    by (simp add: pos_divide_le_eq)
  from assms(4) N have hi: "p * real ?N \<le> real (Suc k)"
    by (simp add: pos_le_divide_eq)
  from lo N have p0: "0 \<le> p"
    by (metis assms(3) divide_nonneg_nonneg of_nat_0_le_iff order_trans)
  note eq = interpolatePosition_nonneg [OF assms(1) p0]
  show ?thesis
  proof (cases "p * real ?N < real (Suc k)")
    case True
    with lo have fl: "\<lfloor>p * real ?N\<rfloor> = int k"
      by (simp add: floor_eq_iff)
    then have "frac (p * real ?N) = p * real ?N - real k"
      by (simp add: frac_def)
    moreover have "nat (int k mod int ?N) = k"
      using assms(2) by simp
    ultimately show ?thesis
      using eq fl by simp
  next
    case False
    with hi have e: "p * real ?N = real (Suc k)" by simp
    then have fl: "\<lfloor>p * real ?N\<rfloor> = int (Suc k)"
      by (metis floor_of_nat)
    have fr: "frac (p * real ?N) = 0"
      using e by (metis frac_of_int of_int_of_nat_eq)
    have m: "nat (int (Suc k) mod int ?N) = Suc k mod ?N"
      by (metis nat_int zmod_int)
    have "interpolatePosition ps p = Inr (edge_point ps (Suc k mod ?N) 0)"
      using eq fl fr m by simp
    also have "edge_point ps (Suc k mod ?N) 0 = edge_point ps k 1"
      by (simp add: edge_point_def)
    also have "(1::real) = p * real ?N - real k"
      using e by simp
    finally show ?thesis .
  qed
qed

lemma interpolatePosition_at_vertex:
  assumes "ps \<noteq> []" and "k < length ps"
  shows "interpolatePosition ps (real k / real (length ps)) = Inr \<lparr> x = x (ps ! k), y = y (ps ! k) \<rparr>"
proof -
  have "interpolatePosition ps (real k / real (length ps)) =
          Inr (edge_point ps k (real k / real (length ps) * real (length ps) - real k))"
    using assms by (intro edge_interval) (simp_all add: divide_right_mono)
  also have "real k / real (length ps) * real (length ps) - real k = 0"
    using assms by simp
  finally show ?thesis
    by (simp add: edge_point_def)
qed

lemma interpolatePosition_continuous:
  assumes "ps \<noteq> []"
  shows "continuous_on {0..<1} (\<lambda>p. coords (interpolatePosition ps p))"
proof -
  let ?N = "length ps"
  let ?F = "\<lambda>p. coords (interpolatePosition ps p)"
  let ?I = "\<lambda>k. {real k / real ?N .. real (Suc k) / real ?N}"
  from assms have N: "0 < ?N" by simp
  have piece: "continuous_on (?I k) ?F" if "k \<in> {..<?N}" for k
  proof -
    from that have k: "k < ?N" by simp
    let ?G = "\<lambda>p. coords (Inr (edge_point ps k (p * real ?N - real k)))"
    have G: "continuous_on (?I k) ?G"
      by (simp add: edge_point_def coords_def) (intro continuous_intros)
    have FG: "?F p = ?G p" if "p \<in> ?I k" for p
      using edge_interval [OF assms k, of p] that by simp
    have "continuous_on (?I k) ?F \<longleftrightarrow> continuous_on (?I k) ?G"
      by (rule continuous_on_cong [OF refl FG])
    with G show ?thesis by blast
  qed
  have "continuous_on (\<Union>k\<in>{..<?N}. ?I k) ?F"
  proof (rule continuous_on_closed_Union)
    show "finite {..<?N}" by simp
    show "closed (?I k)" for k by (rule closed_atLeastAtMost)
    show "continuous_on (?I k) ?F" if "k \<in> {..<?N}" for k using that by (rule piece)
  qed
  moreover have "{0..<1} \<subseteq> (\<Union>k\<in>{..<?N}. ?I k)"
  proof
    fix p :: real
    assume "p \<in> {0..<1}"
    then have p: "0 \<le> p" "p < 1" by simp_all
    define m where "m = \<lfloor>p * real ?N\<rfloor>"
    let ?k = "nat m"
    from p N have "0 \<le> p * real ?N" by simp
    then have f0: "0 \<le> m" unfolding m_def by (simp only: zero_le_floor)
    from p N have "p * real ?N < real ?N" by simp
    then have "m < int ?N" unfolding m_def by (simp add: floor_less_iff)
    with f0 have k: "?k < ?N" by linarith
    have rk: "real ?k = of_int m" using f0 by simp
    have "of_int m \<le> p * real ?N" unfolding m_def by (rule of_int_floor_le)
    then have lo: "real ?k / real ?N \<le> p"
      using N rk by (simp add: pos_divide_le_eq)
    have "p * real ?N < of_int m + 1" unfolding m_def by linarith
    then have "p * real ?N \<le> real (Suc ?k)" using rk by simp
    then have hi: "p \<le> real (Suc ?k) / real ?N"
      using N by (simp add: pos_le_divide_eq)
    have "?k \<in> {..<?N}" using k by simp
    moreover have "p \<in> ?I ?k" using lo hi by (simp only: atLeastAtMost_iff)
    ultimately show "p \<in> (\<Union>k\<in>{..<?N}. ?I k)" by (rule UN_I)
  qed
  ultimately show ?thesis
    by (rule continuous_on_subset)
qed

text \<open>
  C4. For the vertex list of a polygon with \<open>n \<ge> 3\<close> sides and every progress \<open>p\<close> in
  \<open>[0, 1)\<close>, \<open>interpolatePosition\<close> returns the point at fraction \<open>frac (p * n)\<close> of the edge
  with index \<open>floor (p * n) mod n\<close>; at \<open>p = 0\<close> it is vertex 0 exactly, at every edge
  boundary \<open>k / n\<close> it is vertex \<open>k\<close>, and the position is a continuous function of \<open>p\<close> on
  \<open>[0, 1)\<close>, so there is no jump where \<open>p\<close> crosses an edge boundary.
\<close>

theorem interpolatePosition_polygon:
  "3 \<le> n \<longrightarrow>
     (let ps = getPolygonPoints n radius centerX centerY in
        (\<forall>p. 0 \<le> p \<and> p < 1 \<longrightarrow>
           interpolatePosition ps p =
             Inr (edge_point ps (nat (\<lfloor>p * of_int n\<rfloor> mod n)) (frac (p * of_int n))))
      \<and> interpolatePosition ps 0 = Inr \<lparr> x = x (ps ! 0), y = y (ps ! 0) \<rparr>
      \<and> interpolatePosition ps 0 = Inr \<lparr> x = centerX, y = centerY - radius \<rparr>
      \<and> (\<forall>k < nat n. interpolatePosition ps (real k / of_int n) =
                        Inr \<lparr> x = x (ps ! k), y = y (ps ! k) \<rparr>)
      \<and> continuous_on {0..<1} (\<lambda>p. coords (interpolatePosition ps p)))"
proof (intro impI)
  assume n: "3 \<le> n"
  let ?ps = "getPolygonPoints n radius centerX centerY"
  have len: "length ?ps = nat n"
    by (rule length_getPolygonPoints)
  with n have ne: "?ps \<noteq> []" by auto
  from n have rn: "real (nat n) = of_int n" "int (nat n) = n" by simp_all
  have edge: "interpolatePosition ?ps p =
               Inr (edge_point ?ps (nat (\<lfloor>p * of_int n\<rfloor> mod n)) (frac (p * of_int n)))"
    if "0 \<le> p \<and> p < 1" for p
    using interpolatePosition_nonneg [OF ne, of p] that by (simp only: len rn)
  have vert: "interpolatePosition ?ps (real k / of_int n) = Inr \<lparr> x = x (?ps ! k), y = y (?ps ! k) \<rparr>"
    if "k < nat n" for k
    using interpolatePosition_at_vertex [OF ne, of k] that by (simp only: len rn)
  from n have "0 < nat n" by simp
  from vert [OF this] have v0: "interpolatePosition ?ps 0 = Inr \<lparr> x = x (?ps ! 0), y = y (?ps ! 0) \<rparr>"
    by simp
  have top: "?ps ! 0 = \<lparr> x = centerX, y = centerY - radius, angle = - pi / 2 \<rparr>"
    using n by (simp add: nth_getPolygonPoints polygonVertex_def Let_def angleOffset_def)
  have v0': "interpolatePosition ?ps 0 = Inr \<lparr> x = centerX, y = centerY - radius \<rparr>"
    using v0 by (simp add: top)
  have cont: "continuous_on {0..<1} (\<lambda>p. coords (interpolatePosition ?ps p))"
    using ne by (rule interpolatePosition_continuous)
  show "let ps = ?ps in
        (\<forall>p. 0 \<le> p \<and> p < 1 \<longrightarrow>
           interpolatePosition ps p =
             Inr (edge_point ps (nat (\<lfloor>p * of_int n\<rfloor> mod n)) (frac (p * of_int n))))
      \<and> interpolatePosition ps 0 = Inr \<lparr> x = x (ps ! 0), y = y (ps ! 0) \<rparr>
      \<and> interpolatePosition ps 0 = Inr \<lparr> x = centerX, y = centerY - radius \<rparr>
      \<and> (\<forall>k < nat n. interpolatePosition ps (real k / of_int n) =
                        Inr \<lparr> x = x (ps ! k), y = y (ps ! k) \<rparr>)
      \<and> continuous_on {0..<1} (\<lambda>p. coords (interpolatePosition ps p))"
    unfolding Let_def using edge v0 v0' vert cont by blast
qed

theorem interpolatePosition_polygon_witness:
  "(3::int) \<le> 4
   \<and> (0::real) \<le> 1 / 8 \<and> (1::real) / 8 < 1
   \<and> interpolatePosition (getPolygonPoints 4 150 210 210) (1 / 8) =
        Inr (edge_point (getPolygonPoints 4 150 210 210) 0 (1 / 2))
   \<and> interpolatePosition (getPolygonPoints 4 150 210 210) 0 = Inr \<lparr> x = 210, y = 60 \<rparr>
   \<and> (1::nat) < nat 4
   \<and> interpolatePosition (getPolygonPoints 4 150 210 210) (1 / 4) =
        Inr \<lparr> x = x (getPolygonPoints 4 150 210 210 ! 1), y = y (getPolygonPoints 4 150 210 210 ! 1) \<rparr>"
proof -
  have h: "(3::int) \<le> 4" by simp
  note t = interpolatePosition_polygon [of 4 150 210 210, unfolded Let_def, THEN mp, OF h]
  have f: "\<lfloor>(1::real) / 2\<rfloor> = 0" "frac ((1::real) / 2) = 1 / 2"
    by (simp_all add: frac_def)
  have "interpolatePosition (getPolygonPoints 4 150 210 210) (1 / 8) =
        Inr (edge_point (getPolygonPoints 4 150 210 210) (nat (\<lfloor>(1 / 8 :: real) * of_int 4\<rfloor> mod 4))
               (frac (1 / 8 * of_int 4)))"
    by (rule t [THEN conjunct1, rule_format]) simp
  then have a: "interpolatePosition (getPolygonPoints 4 150 210 210) (1 / 8) =
        Inr (edge_point (getPolygonPoints 4 150 210 210) 0 (1 / 2))"
    by (simp add: f)
  have b: "interpolatePosition (getPolygonPoints 4 150 210 210) 0 = Inr \<lparr> x = 210, y = 60 \<rparr>"
    using t [THEN conjunct2, THEN conjunct2, THEN conjunct1] by simp
  have "interpolatePosition (getPolygonPoints 4 150 210 210) (real 1 / of_int 4) =
        Inr \<lparr> x = x (getPolygonPoints 4 150 210 210 ! 1), y = y (getPolygonPoints 4 150 210 210 ! 1) \<rparr>"
    by (rule t [THEN conjunct2, THEN conjunct2, THEN conjunct2, THEN conjunct1, rule_format]) simp
  then have c: "interpolatePosition (getPolygonPoints 4 150 210 210) (1 / 4) =
        Inr \<lparr> x = x (getPolygonPoints 4 150 210 210 ! 1), y = y (getPolygonPoints 4 150 210 210 ! 1) \<rparr>"
    by simp
  from a b c show ?thesis by simp
qed

text \<open>
  C10. Called with an empty vertex list, \<open>interpolatePosition\<close> returns the point
  \<open>{x: 0, y: 0}\<close> for every progress value; it neither throws nor reads the array.
\<close>

theorem interpolatePosition_empty:
  "interpolatePosition [] progress = Inr \<lparr> x = 0, y = 0 \<rparr>"
  by (simp add: interpolatePosition_def)

subsection \<open>The marker for one and two beats\<close>

lemma js_rem_real_nonneg:
  assumes "0 \<le> a" and "0 < b"
  shows "js_rem_real a b / b = frac (a / b)"
proof -
  from assms have "0 \<le> a / b" by simp
  then have "js_trunc (a / b) = \<lfloor>a / b\<rfloor>" by (simp add: js_trunc_def)
  then have "js_rem_real a b / b = (a - b * of_int \<lfloor>a / b\<rfloor>) / b"
    by (simp add: js_rem_real_def)
  also have "\<dots> = a / b - of_int \<lfloor>a / b\<rfloor>"
    using assms(2) by (simp add: diff_divide_distrib)
  finally show ?thesis by (simp add: frac_def)
qed

lemma animate_measureProgress_frac:
  assumes "0 < transportBpm" and "1 \<le> numer" and "0 \<le> transportSeconds"
  shows "animate_measureProgress transportBpm numer transportSeconds =
           frac (transportSeconds / (60 / transportBpm * of_int numer))"
  unfolding animate_measureProgress_def Let_def
  by (rule js_rem_real_nonneg) (use assms in simp_all)

lemma animate_measureProgress_range:
  assumes "0 < transportBpm" and "1 \<le> numer" and "0 \<le> transportSeconds"
  shows "0 \<le> animate_measureProgress transportBpm numer transportSeconds
       \<and> animate_measureProgress transportBpm numer transportSeconds < 1"
  by (simp add: animate_measureProgress_frac [OF assms] frac_lt_1)

section \<open>The component: verified properties\<close>

subsection \<open>What the effects change\<close>

lemma updateBpmEffect_fields:
  "isPlaying (updateBpmEffect s) = isPlaying s"
  "audioReady (updateBpmEffect s) = audioReady s"
  "bpm (updateBpmEffect s) = bpm s"
  "timeSignature (updateBpmEffect s) = timeSignature s"
  "synthRef (updateBpmEffect s) = synthRef s"
  "accentSynthRef (updateBpmEffect s) = accentSynthRef s"
  "loopRef (updateBpmEffect s) = loopRef s"
  "beatCountRef (updateBpmEffect s) = beatCountRef s"
  "currentBeat (updateBpmEffect s) = currentBeat s"
  "beatActive (updateBpmEffect s) = beatActive s"
  "isDownbeat (updateBpmEffect s) = isDownbeat s"
  "started (transport (updateBpmEffect s)) = started (transport s)"
  "seconds (transport (updateBpmEffect s)) = seconds (transport s)"
  "bpmValue (transport (updateBpmEffect s)) =
     (if audioReady s then of_int (bpm s) else bpmValue (transport s))"
  by (simp_all add: updateBpmEffect_def)

lemma animationEffect_fields:
  "isPlaying (animationEffect s) = isPlaying s"
  "audioReady (animationEffect s) = audioReady s"
  "bpm (animationEffect s) = bpm s"
  "timeSignature (animationEffect s) = timeSignature s"
  "synthRef (animationEffect s) = synthRef s"
  "accentSynthRef (animationEffect s) = accentSynthRef s"
  "loopRef (animationEffect s) = loopRef s"
  "beatCountRef (animationEffect s) = beatCountRef s"
  "currentBeat (animationEffect s) = currentBeat s"
  "beatActive (animationEffect s) = beatActive s"
  "isDownbeat (animationEffect s) = isDownbeat s"
  "transport (animationEffect s) = transport s"
  by (simp_all add: animationEffect_def Let_def)

lemma setupLoopEffect_fields:
  "isPlaying (setupLoopEffect s) = isPlaying s"
  "audioReady (setupLoopEffect s) = audioReady s"
  "bpm (setupLoopEffect s) = bpm s"
  "timeSignature (setupLoopEffect s) = timeSignature s"
  "synthRef (setupLoopEffect s) = synthRef s"
  "accentSynthRef (setupLoopEffect s) = accentSynthRef s"
  "loopRef (setupLoopEffect s) = (isPlaying s \<and> audioReady s)"
  "beatCountRef (setupLoopEffect s) = 0"
  "currentBeat (setupLoopEffect s) = (if isPlaying s \<and> audioReady s then currentBeat s else 0)"
  "beatActive (setupLoopEffect s) = (isPlaying s \<and> audioReady s \<and> beatActive s)"
  "isDownbeat (setupLoopEffect s) = (isPlaying s \<and> audioReady s \<and> isDownbeat s)"
  "started (transport (setupLoopEffect s)) = (isPlaying s \<and> audioReady s)"
  "seconds (transport (setupLoopEffect s)) =
     (if isPlaying s \<and> audioReady s then seconds (transport s) else 0)"
  "bpmValue (transport (setupLoopEffect s)) = bpmValue (transport s)"
  by (auto simp add: setupLoopEffect_def transport_start_def transport_stop_def
        transport_set_position_def)

lemmas effect_fields = updateBpmEffect_fields animationEffect_fields setupLoopEffect_fields

lemma runEffects_fields:
  "isPlaying (runEffects prev s) = isPlaying s"
  "audioReady (runEffects prev s) = audioReady s"
  "bpm (runEffects prev s) = bpm s"
  "timeSignature (runEffects prev s) = timeSignature s"
  "synthRef (runEffects prev s) = synthRef s"
  "accentSynthRef (runEffects prev s) = accentSynthRef s"
  "loopRef (runEffects prev s) =
     (if loopDepsChanged prev s then isPlaying s \<and> audioReady s else loopRef s)"
  "beatCountRef (runEffects prev s) = (if loopDepsChanged prev s then 0 else beatCountRef s)"
  "currentBeat (runEffects prev s) =
     (if loopDepsChanged prev s \<and> \<not> (isPlaying s \<and> audioReady s) then 0 else currentBeat s)"
  "beatActive (runEffects prev s) =
     (if loopDepsChanged prev s \<and> \<not> (isPlaying s \<and> audioReady s) then False else beatActive s)"
  "isDownbeat (runEffects prev s) =
     (if loopDepsChanged prev s \<and> \<not> (isPlaying s \<and> audioReady s) then False else isDownbeat s)"
  "started (transport (runEffects prev s)) =
     (if loopDepsChanged prev s then isPlaying s \<and> audioReady s else started (transport s))"
  "seconds (transport (runEffects prev s)) =
     (if loopDepsChanged prev s \<and> \<not> (isPlaying s \<and> audioReady s) then 0
      else seconds (transport s))"
  "bpmValue (transport (runEffects prev s)) =
     (if (bpm s \<noteq> bpm prev \<or> audioReady s \<noteq> audioReady prev) \<and> audioReady s
      then of_int (bpm s) else bpmValue (transport s))"
  unfolding runEffects_def Let_def loopDepsChanged_def
  by (auto simp add: effect_fields)

lemma runEffects_same: "runEffects s s = s"
  by (simp add: runEffects_def)



subsection \<open>What the handlers change\<close>

lemma handlePlayToggle_fields:
  "isPlaying (handlePlayToggle r s) = (\<not> isPlaying s \<and> (audioReady s \<or> r))"
  "audioReady (handlePlayToggle r s) = (audioReady s \<or> (\<not> isPlaying s \<and> r))"
  "bpm (handlePlayToggle r s) = bpm s"
  "timeSignature (handlePlayToggle r s) = timeSignature s"
  "synthRef (handlePlayToggle r s) =
     (if \<not> isPlaying s \<and> \<not> audioReady s \<and> r \<and> synthRef s = None then Some beatSynth
      else synthRef s)"
  "accentSynthRef (handlePlayToggle r s) =
     (if \<not> isPlaying s \<and> \<not> audioReady s \<and> r \<and> accentSynthRef s = None then Some accentSynth
      else accentSynthRef s)"
  "loopRef (handlePlayToggle r s) = loopRef s"
  "beatCountRef (handlePlayToggle r s) = beatCountRef s"
  "currentBeat (handlePlayToggle r s) = currentBeat s"
  "beatActive (handlePlayToggle r s) = beatActive s"
  "isDownbeat (handlePlayToggle r s) = isDownbeat s"
  "transport (handlePlayToggle r s) = transport s"
  by (auto simp add: handlePlayToggle_def ensureAudioReady_def Let_def)

lemma handleBpmChange_fields:
  "isPlaying (handleBpmChange d s) = isPlaying s"
  "audioReady (handleBpmChange d s) = audioReady s"
  "bpm (handleBpmChange d s) = min 200 (max 40 (bpm s + d))"
  "timeSignature (handleBpmChange d s) = timeSignature s"
  "synthRef (handleBpmChange d s) = synthRef s"
  "accentSynthRef (handleBpmChange d s) = accentSynthRef s"
  "loopRef (handleBpmChange d s) = loopRef s"
  "beatCountRef (handleBpmChange d s) = beatCountRef s"
  "currentBeat (handleBpmChange d s) = currentBeat s"
  "beatActive (handleBpmChange d s) = beatActive s"
  "isDownbeat (handleBpmChange d s) = isDownbeat s"
  "transport (handleBpmChange d s) = transport s"
  by (simp_all add: handleBpmChange_def)

lemma handleNumeratorChange_fields:
  "isPlaying (handleNumeratorChange d s) = isPlaying s"
  "audioReady (handleNumeratorChange d s) = audioReady s"
  "bpm (handleNumeratorChange d s) = bpm s"
  "numerator (timeSignature (handleNumeratorChange d s)) =
     min 12 (max 1 (numerator (timeSignature s) + d))"
  "denominator (timeSignature (handleNumeratorChange d s)) = denominator (timeSignature s)"
  "synthRef (handleNumeratorChange d s) = synthRef s"
  "accentSynthRef (handleNumeratorChange d s) = accentSynthRef s"
  "loopRef (handleNumeratorChange d s) = loopRef s"
  "beatCountRef (handleNumeratorChange d s) = beatCountRef s"
  "currentBeat (handleNumeratorChange d s) = currentBeat s"
  "beatActive (handleNumeratorChange d s) = beatActive s"
  "isDownbeat (handleNumeratorChange d s) = isDownbeat s"
  "transport (handleNumeratorChange d s) = transport s"
  by (simp_all add: handleNumeratorChange_def)

lemma pointerMove_shape:
  "pointerMove c clientY s =
     (case c of
        BpmControl \<Rightarrow>
          (case snd (handlePointerMove (isPlaying s) clientY (bpmRef s)) of
             None \<Rightarrow> s\<lparr> bpmRef := fst (handlePointerMove (isPlaying s) clientY (bpmRef s)) \<rparr>
           | Some d \<Rightarrow>
               handleBpmChange d
                 (s\<lparr> bpmRef := fst (handlePointerMove (isPlaying s) clientY (bpmRef s)) \<rparr>))
      | BeatsControl \<Rightarrow>
          (case snd (handlePointerMove (isPlaying s) clientY (numeratorRef s)) of
             None \<Rightarrow> s\<lparr> numeratorRef := fst (handlePointerMove (isPlaying s) clientY (numeratorRef s)) \<rparr>
           | Some d \<Rightarrow>
               handleNumeratorChange d
                 (s\<lparr> numeratorRef := fst (handlePointerMove (isPlaying s) clientY (numeratorRef s)) \<rparr>)))"
  by (simp add: pointerMove_def split: control.splits prod.splits option.splits)

lemma pointerMove_fields:
  "isPlaying (pointerMove c clientY s) = isPlaying s"
  "audioReady (pointerMove c clientY s) = audioReady s"
  "synthRef (pointerMove c clientY s) = synthRef s"
  "accentSynthRef (pointerMove c clientY s) = accentSynthRef s"
  "loopRef (pointerMove c clientY s) = loopRef s"
  "beatCountRef (pointerMove c clientY s) = beatCountRef s"
  "currentBeat (pointerMove c clientY s) = currentBeat s"
  "beatActive (pointerMove c clientY s) = beatActive s"
  "isDownbeat (pointerMove c clientY s) = isDownbeat s"
  "transport (pointerMove c clientY s) = transport s"
  by (simp_all add: pointerMove_shape handleBpmChange_fields handleNumeratorChange_fields
        split: control.splits option.splits)

lemma pointerMove_bpm:
  "bpm (pointerMove c clientY s) = bpm s
   \<or> (\<exists>d. bpm (pointerMove c clientY s) = min 200 (max 40 (bpm s + d)))"
  by (simp add: pointerMove_shape handleBpmChange_fields handleNumeratorChange_fields
        split: control.splits option.splits) blast

lemma pointerMove_numerator:
  "numerator (timeSignature (pointerMove c clientY s)) = numerator (timeSignature s)
   \<or> (\<exists>d. numerator (timeSignature (pointerMove c clientY s)) =
             min 12 (max 1 (numerator (timeSignature s) + d)))"
  by (simp add: pointerMove_shape handleBpmChange_fields handleNumeratorChange_fields
        split: control.splits option.splits) blast

lemma pointerMove_disabled: "isPlaying s \<Longrightarrow> pointerMove c clientY s = s"
  by (cases c) (simp_all add: pointerMove_def handlePointerMove_def)

lemma pointerDown_disabled: "isPlaying s \<Longrightarrow> pointerDown c clientY s = s"
  by (cases c) (simp_all add: pointerDown_def handlePointerDown_def)

lemma arrowClick_disabled: "isPlaying s \<Longrightarrow> arrowClick c delta s = s"
  by (simp add: arrowClick_def)



lemma arrowClick_fields:
  "isPlaying (arrowClick c d s) = isPlaying s"
  "audioReady (arrowClick c d s) = audioReady s"
  "synthRef (arrowClick c d s) = synthRef s"
  "accentSynthRef (arrowClick c d s) = accentSynthRef s"
  "loopRef (arrowClick c d s) = loopRef s"
  "beatCountRef (arrowClick c d s) = beatCountRef s"
  "currentBeat (arrowClick c d s) = currentBeat s"
  "beatActive (arrowClick c d s) = beatActive s"
  "isDownbeat (arrowClick c d s) = isDownbeat s"
  "transport (arrowClick c d s) = transport s"
  "bpm (arrowClick c d s) =
     (if \<not> isPlaying s \<and> c = BpmControl then min 200 (max 40 (bpm s + d)) else bpm s)"
  "numerator (timeSignature (arrowClick c d s)) =
     (if \<not> isPlaying s \<and> c = BeatsControl then min 12 (max 1 (numerator (timeSignature s) + d))
      else numerator (timeSignature s))"
  by (simp_all add: arrowClick_def handleBpmChange_fields handleNumeratorChange_fields
        split: control.splits)

lemma pointerDown_fields:
  "isPlaying (pointerDown c clientY s) = isPlaying s"
  "audioReady (pointerDown c clientY s) = audioReady s"
  "bpm (pointerDown c clientY s) = bpm s"
  "timeSignature (pointerDown c clientY s) = timeSignature s"
  "synthRef (pointerDown c clientY s) = synthRef s"
  "accentSynthRef (pointerDown c clientY s) = accentSynthRef s"
  "loopRef (pointerDown c clientY s) = loopRef s"
  "beatCountRef (pointerDown c clientY s) = beatCountRef s"
  "currentBeat (pointerDown c clientY s) = currentBeat s"
  "beatActive (pointerDown c clientY s) = beatActive s"
  "isDownbeat (pointerDown c clientY s) = isDownbeat s"
  "transport (pointerDown c clientY s) = transport s"
  by (simp_all add: pointerDown_def split: control.splits)

lemma pointerUp_fields:
  "isPlaying (pointerUp c s) = isPlaying s"
  "audioReady (pointerUp c s) = audioReady s"
  "bpm (pointerUp c s) = bpm s"
  "timeSignature (pointerUp c s) = timeSignature s"
  "synthRef (pointerUp c s) = synthRef s"
  "accentSynthRef (pointerUp c s) = accentSynthRef s"
  "loopRef (pointerUp c s) = loopRef s"
  "beatCountRef (pointerUp c s) = beatCountRef s"
  "currentBeat (pointerUp c s) = currentBeat s"
  "beatActive (pointerUp c s) = beatActive s"
  "isDownbeat (pointerUp c s) = isDownbeat s"
  "transport (pointerUp c s) = transport s"
  by (simp_all add: pointerUp_def split: control.splits)

subsection \<open>What the callbacks change\<close>

lemma triggerBeat_fields:
  "isPlaying (triggerBeat time s) = isPlaying s"
  "audioReady (triggerBeat time s) = audioReady s"
  "bpm (triggerBeat time s) = bpm s"
  "timeSignature (triggerBeat time s) = timeSignature s"
  "synthRef (triggerBeat time s) = synthRef s"
  "accentSynthRef (triggerBeat time s) = accentSynthRef s"
  "loopRef (triggerBeat time s) = loopRef s"
  "currentBeat (triggerBeat time s) = currentBeat s"
  "beatActive (triggerBeat time s) = beatActive s"
  "isDownbeat (triggerBeat time s) = isDownbeat s"
  "transport (triggerBeat time s) = transport s"
  "timeouts (triggerBeat time s) = timeouts s"
  "nextTimerId (triggerBeat time s) = nextTimerId s"
  "beatCountRef (triggerBeat time s) =
     (if synthRef s \<noteq> None \<and> accentSynthRef s \<noteq> None then beatCountRef s + 1
      else beatCountRef s)"
  by (simp_all add: triggerBeat_def Let_def split: option.splits)

lemma drawCallback_fields:
  "isPlaying (drawCallback job s) = isPlaying s"
  "audioReady (drawCallback job s) = audioReady s"
  "bpm (drawCallback job s) = bpm s"
  "timeSignature (drawCallback job s) = timeSignature s"
  "synthRef (drawCallback job s) = synthRef s"
  "accentSynthRef (drawCallback job s) = accentSynthRef s"
  "loopRef (drawCallback job s) = loopRef s"
  "beatCountRef (drawCallback job s) = beatCountRef s"
  "transport (drawCallback job s) = transport s"
  "drawQueue (drawCallback job s) = drawQueue s"
  "sounds (drawCallback job s) = sounds s"
  "currentBeat (drawCallback job s) = beatIndex job"
  "isDownbeat (drawCallback job s) = isFirstBeat job"
  "beatActive (drawCallback job s) = True"
  "timeouts (drawCallback job s) =
     timeouts s @ [\<lparr> timerId = nextTimerId s, delayMs = 60 / bpmValue (transport s) * 1000 * 0.8 \<rparr>]"
  "nextTimerId (drawCallback job s) = nextTimerId s + 1"
  by (simp_all add: drawCallback_def Let_def)

lemma runDraw_fields:
  "isPlaying (runDraw s) = isPlaying s"
  "audioReady (runDraw s) = audioReady s"
  "bpm (runDraw s) = bpm s"
  "timeSignature (runDraw s) = timeSignature s"
  "synthRef (runDraw s) = synthRef s"
  "accentSynthRef (runDraw s) = accentSynthRef s"
  "loopRef (runDraw s) = loopRef s"
  "beatCountRef (runDraw s) = beatCountRef s"
  "transport (runDraw s) = transport s"
  by (simp_all add: runDraw_def drawCallback_fields split: list.splits)

lemma fireTimeout_fields:
  "isPlaying (fireTimeout i s) = isPlaying s"
  "audioReady (fireTimeout i s) = audioReady s"
  "bpm (fireTimeout i s) = bpm s"
  "timeSignature (fireTimeout i s) = timeSignature s"
  "synthRef (fireTimeout i s) = synthRef s"
  "accentSynthRef (fireTimeout i s) = accentSynthRef s"
  "loopRef (fireTimeout i s) = loopRef s"
  "beatCountRef (fireTimeout i s) = beatCountRef s"
  "transport (fireTimeout i s) = transport s"
  by (simp_all add: fireTimeout_def flashClear_def)

lemma animate_fields:
  "isPlaying (animate s) = isPlaying s"
  "audioReady (animate s) = audioReady s"
  "bpm (animate s) = bpm s"
  "timeSignature (animate s) = timeSignature s"
  "synthRef (animate s) = synthRef s"
  "accentSynthRef (animate s) = accentSynthRef s"
  "loopRef (animate s) = loopRef s"
  "beatCountRef (animate s) = beatCountRef s"
  "transport (animate s) = transport s"
  by (simp_all add: animate_def Let_def split: sum.splits)

lemma elapse_fields:
  "isPlaying (elapse dt s) = isPlaying s"
  "audioReady (elapse dt s) = audioReady s"
  "bpm (elapse dt s) = bpm s"
  "timeSignature (elapse dt s) = timeSignature s"
  "synthRef (elapse dt s) = synthRef s"
  "accentSynthRef (elapse dt s) = accentSynthRef s"
  "loopRef (elapse dt s) = loopRef s"
  "beatCountRef (elapse dt s) = beatCountRef s"
  "started (transport (elapse dt s)) = started (transport s)"
  "bpmValue (transport (elapse dt s)) = bpmValue (transport s)"
  "seconds (transport (elapse dt s)) =
     (if started (transport s) \<and> 0 \<le> dt then seconds (transport s) + dt
      else seconds (transport s))"
  by (simp_all add: elapse_def)

subsection \<open>Reachable states are well formed\<close>

lemma wellformed_mounted: "wellformed mounted"
  by (simp add: wellformed_def mounted_def effect_fields) (simp add: initial_def)

lemma wellformed_ClickPlay: "wellformed s \<Longrightarrow> wellformed (step (ClickPlay r) s)"
  unfolding wellformed_def step.simps
  by (simp add: runEffects_fields handlePlayToggle_fields loopDepsChanged_def) auto

lemma wellformed_ClickArrow: "wellformed s \<Longrightarrow> wellformed (step (ClickArrow c d) s)"
  unfolding wellformed_def step.simps
  by (simp add: runEffects_fields arrowClick_fields loopDepsChanged_def) auto

lemma wellformed_PointerMove: "wellformed s \<Longrightarrow> wellformed (step (PointerMove c clientY) s)"
proof -
  assume w: "wellformed s"
  let ?s' = "pointerMove c clientY s"
  from pointerMove_bpm [of c clientY s] w have b: "40 \<le> bpm ?s' \<and> bpm ?s' \<le> 200"
    unfolding wellformed_def by auto
  from pointerMove_numerator [of c clientY s] w
  have n: "1 \<le> numerator (timeSignature ?s') \<and> numerator (timeSignature ?s') \<le> 12"
    unfolding wellformed_def by auto
  show ?thesis
  proof (cases "isPlaying s")
    case True
    then show ?thesis using w by (simp add: step.simps pointerMove_disabled runEffects_same)
  next
    case False
    with w have nl: "\<not> loopRef s" unfolding wellformed_def by auto
    from w b n False nl show ?thesis
      unfolding wellformed_def step.simps
      by (simp add: runEffects_fields pointerMove_fields loopDepsChanged_def)
  qed
qed

lemma wellformed_step: "wellformed s \<Longrightarrow> wellformed (step e s)"
proof (cases e)
  case (ClickPlay r)
  assume "wellformed s"
  then show ?thesis unfolding ClickPlay by (rule wellformed_ClickPlay)
next
  case (ClickArrow c d)
  assume "wellformed s"
  then show ?thesis unfolding ClickArrow by (rule wellformed_ClickArrow)
next
  case (PointerDown c clientY)
  assume "wellformed s"
  then show ?thesis unfolding PointerDown
    by (simp add: step.simps wellformed_def pointerDown_fields)
next
  case (PointerMove c clientY)
  assume "wellformed s"
  then show ?thesis unfolding PointerMove by (rule wellformed_PointerMove)
next
  case (PointerUp c)
  assume "wellformed s"
  then show ?thesis unfolding PointerUp
    by (simp add: step.simps wellformed_def pointerUp_fields)
next
  case (Tick time)
  assume "wellformed s"
  then show ?thesis unfolding Tick
    by (simp add: step.simps wellformed_def triggerBeat_fields)
next
  case Draw
  assume "wellformed s"
  then show ?thesis unfolding Draw
    by (simp add: step.simps wellformed_def runDraw_fields)
next
  case (Timeout i)
  assume "wellformed s"
  then show ?thesis unfolding Timeout
    by (simp add: step.simps wellformed_def fireTimeout_fields)
next
  case Frame
  assume "wellformed s"
  then show ?thesis unfolding Frame
    by (simp add: step.simps wellformed_def animate_fields)
next
  case (Elapse dt)
  assume "wellformed s"
  then show ?thesis unfolding Elapse
    by (simp add: step.simps wellformed_def elapse_fields)
qed

lemma reachable_wellformed: "reachable s \<Longrightarrow> wellformed s"
  by (induction rule: reachable.induct) (simp_all add: wellformed_mounted wellformed_step)

subsection \<open>Tempo and meter requests\<close>

text \<open>
  C5. For every prior tempo and every integer delta, \<open>handleBpmChange\<close> yields an integer
  tempo clamped into \<open>[40, 200]\<close>, and for every prior numerator and delta,
  \<open>handleNumeratorChange\<close> yields an integer clamped into \<open>[1, 12]\<close>: a request beyond a
  bound gives the bound, any other request the requested value. The handlers have no
  error outcome; an arrow click on a stopped component applies exactly this clamp.
\<close>

theorem tempo_meter_clamped:
  "bpm (handleBpmChange delta s) =
     (if bpm s + delta < 40 then 40 else if 200 < bpm s + delta then 200 else bpm s + delta)
   \<and> 40 \<le> bpm (handleBpmChange delta s) \<and> bpm (handleBpmChange delta s) \<le> 200
   \<and> numerator (timeSignature (handleNumeratorChange delta s)) =
     (if numerator (timeSignature s) + delta < 1 then 1
      else if 12 < numerator (timeSignature s) + delta then 12
      else numerator (timeSignature s) + delta)
   \<and> 1 \<le> numerator (timeSignature (handleNumeratorChange delta s))
   \<and> numerator (timeSignature (handleNumeratorChange delta s)) \<le> 12
   \<and> bpm (step (ClickArrow BpmControl delta) s) =
       (if isPlaying s then bpm s else min 200 (max 40 (bpm s + delta)))
   \<and> numerator (timeSignature (step (ClickArrow BeatsControl delta) s)) =
       (if isPlaying s then numerator (timeSignature s)
        else min 12 (max 1 (numerator (timeSignature s) + delta)))"
  by (simp add: step.simps handleBpmChange_fields handleNumeratorChange_fields runEffects_fields
        arrowClick_fields)

lemma step_running_request:
  assumes "isPlaying s"
  shows "step (ClickArrow c delta) s = s"
    and "step (PointerDown c clientY) s = s"
    and "step (PointerMove c clientY) s = s"
  using assms
  by (simp_all add: step.simps arrowClick_disabled pointerDown_disabled pointerMove_disabled
        runEffects_same)

lemma step_keeps_playing:
  assumes "\<not> isClickPlay e"
  shows "isPlaying (step e s) = isPlaying s \<and> audioReady (step e s) = audioReady s"
  using assms
  by (cases e)
    (simp_all add: step.simps runEffects_fields arrowClick_fields pointerDown_fields
        pointerMove_fields pointerUp_fields triggerBeat_fields runDraw_fields fireTimeout_fields
        animate_fields elapse_fields)

lemma step_running_settings:
  assumes "isPlaying s" and "\<not> isClickPlay e"
  shows "bpm (step e s) = bpm s \<and> timeSignature (step e s) = timeSignature s"
  using assms
  by (cases e)
    (simp_all add: step.simps arrowClick_disabled pointerDown_disabled pointerMove_disabled runEffects_same
        pointerUp_fields triggerBeat_fields runDraw_fields fireTimeout_fields animate_fields
        elapse_fields)

lemma run_Cons: "run (e # evs) s = run evs (step e s)"
  by (simp add: run_def)

lemma run_Nil: "run [] s = s"
  by (simp add: run_def)

lemma run_append: "run (evs @ evs') s = run evs' (run evs s)"
  by (simp add: run_def)

lemma run_running_settings:
  assumes "isPlaying s" and "\<forall>e \<in> set evs. \<not> isClickPlay e"
  shows "isPlaying (run evs s) \<and> bpm (run evs s) = bpm s
         \<and> timeSignature (run evs s) = timeSignature s"
  using assms
proof (induction evs arbitrary: s)
  case Nil
  then show ?case by (simp add: run_Nil)
next
  case (Cons e evs)
  then have e: "\<not> isClickPlay e" and rest: "\<forall>e \<in> set evs. \<not> isClickPlay e"
    by simp_all
  from Cons.prems(1) e have p: "isPlaying (step e s)"
    by (simp add: step_keeps_playing)
  from Cons.IH [OF p rest] show ?case
    using Cons.prems(1) e by (simp add: run_Cons step_running_settings)
qed

lemma stop_settings:
  "bpm (step (ClickPlay r) s) = bpm s" "timeSignature (step (ClickPlay r) s) = timeSignature s"
  by (simp_all add: step.simps runEffects_fields handlePlayToggle_fields)

text \<open>
  C6. While the session is playing, a tempo or meter change request (an arrow click, a
  pointer press or a pointer move on a drag control) leaves the whole state as it was:
  tempo and numerator are unchanged, nothing is recorded for later, and the handler has
  no error outcome. Over any sequence of events without a click on the play button the
  session stays playing with the same tempo and time signature, and they are still the
  same after the click that stops it.
\<close>

theorem running_settings_immutable:
  "isPlaying s \<longrightarrow>
     step (ClickArrow c delta) s = s
   \<and> step (PointerDown c clientY) s = s
   \<and> step (PointerMove c clientY) s = s
   \<and> (\<forall>evs. (\<forall>e \<in> set evs. \<not> isClickPlay e) \<longrightarrow>
          isPlaying (run evs s)
        \<and> bpm (run evs s) = bpm s \<and> timeSignature (run evs s) = timeSignature s
        \<and> bpm (step (ClickPlay r) (run evs s)) = bpm s
        \<and> timeSignature (step (ClickPlay r) (run evs s)) = timeSignature s)"
proof
  assume p: "isPlaying s"
  have seq: "isPlaying (run evs s)
        \<and> bpm (run evs s) = bpm s \<and> timeSignature (run evs s) = timeSignature s
        \<and> bpm (step (ClickPlay r) (run evs s)) = bpm s
        \<and> timeSignature (step (ClickPlay r) (run evs s)) = timeSignature s"
    if "\<forall>e \<in> set evs. \<not> isClickPlay e" for evs
    using run_running_settings [OF p that] by (simp only: stop_settings)
  from step_running_request [OF p] seq
  show "step (ClickArrow c delta) s = s
   \<and> step (PointerDown c clientY) s = s
   \<and> step (PointerMove c clientY) s = s
   \<and> (\<forall>evs. (\<forall>e \<in> set evs. \<not> isClickPlay e) \<longrightarrow>
          isPlaying (run evs s)
        \<and> bpm (run evs s) = bpm s \<and> timeSignature (run evs s) = timeSignature s
        \<and> bpm (step (ClickPlay r) (run evs s)) = bpm s
        \<and> timeSignature (step (ClickPlay r) (run evs s)) = timeSignature s)"
    by blast
qed

lemma mounted_fields:
  "isPlaying mounted = False" "audioReady mounted = False" "bpm mounted = 120"
  "timeSignature mounted = \<lparr> numerator = 4, denominator = 4 \<rparr>"
  "synthRef mounted = None" "accentSynthRef mounted = None" "loopRef mounted = False"
  "beatCountRef mounted = 0" "currentBeat mounted = 0" "beatActive mounted = False"
  "isDownbeat mounted = False" "started (transport mounted) = False"
  "seconds (transport mounted) = 0" "bpmValue (transport mounted) = 120"
  by (simp_all add: mounted_def effect_fields) (simp_all add: initial_def)

lemma mounted_queues:
  "sounds mounted = []" "drawQueue mounted = []" "timeouts mounted = []" "nextTimerId mounted = 0"
  by (simp_all add: mounted_def updateBpmEffect_def animationEffect_def setupLoopEffect_def
        initial_def Let_def)

theorem running_settings_immutable_witness:
  "isPlaying (step (ClickPlay True) mounted)
   \<and> step (ClickArrow BpmControl 1) (step (ClickPlay True) mounted) = step (ClickPlay True) mounted
   \<and> \<not> isClickPlay (Tick 0) \<and> \<not> isClickPlay (ClickArrow BeatsControl 5)
   \<and> bpm (run [Tick 0, ClickArrow BeatsControl 5] (step (ClickPlay True) mounted)) = 120
   \<and> timeSignature (step (ClickPlay False)
        (run [Tick 0, ClickArrow BeatsControl 5] (step (ClickPlay True) mounted))) =
       \<lparr> numerator = 4, denominator = 4 \<rparr>"
proof -
  let ?s = "step (ClickPlay True) mounted"
  have p: "isPlaying ?s"
    by (simp add: step.simps runEffects_fields handlePlayToggle_fields mounted_fields)
  have b: "bpm ?s = 120" "timeSignature ?s = \<lparr> numerator = 4, denominator = 4 \<rparr>"
    by (simp_all add: step.simps runEffects_fields handlePlayToggle_fields mounted_fields)
  have e: "\<forall>e \<in> set [Tick 0, ClickArrow BeatsControl 5]. \<not> isClickPlay e"
    by simp
  note t = running_settings_immutable [of ?s BpmControl 1 0 False, THEN mp, OF p]
  from t have "step (ClickArrow BpmControl 1) ?s = ?s" by blast
  moreover from t e have "bpm (run [Tick 0, ClickArrow BeatsControl 5] ?s) = bpm ?s
     \<and> timeSignature (step (ClickPlay False) (run [Tick 0, ClickArrow BeatsControl 5] ?s))
         = timeSignature ?s"
    by blast
  ultimately show ?thesis using p b e by simp
qed

subsection \<open>Stop and start\<close>

lemma stoppedIdle_step:
  assumes "stoppedIdle s" and "\<not> isClickPlay e"
  shows "stoppedIdle (step e s)"
  using assms unfolding stoppedIdle_def
  by (cases e)
    (simp_all add: step.simps runEffects_fields arrowClick_fields pointerDown_fields
        pointerMove_fields pointerUp_fields triggerBeat_fields runDraw_fields fireTimeout_fields
        animate_fields elapse_fields)

lemma stoppedIdle_run:
  assumes "stoppedIdle s" and "\<forall>e \<in> set evs. \<not> isClickPlay e"
  shows "stoppedIdle (run evs s)"
  using assms
proof (induction evs arbitrary: s)
  case Nil
  then show ?case by (simp add: run_Nil)
next
  case (Cons e evs)
  then have "stoppedIdle (step e s)" by (simp add: stoppedIdle_step)
  with Cons show ?case by (simp add: run_Cons)
qed

lemma stop_fields:
  assumes "isPlaying s"
  shows "\<not> isPlaying (step (ClickPlay r) s)"
    and "audioReady (step (ClickPlay r) s) = audioReady s"
    and "\<not> loopRef (step (ClickPlay r) s)"
    and "\<not> started (transport (step (ClickPlay r) s))"
    and "seconds (transport (step (ClickPlay r) s)) = 0"
    and "beatCountRef (step (ClickPlay r) s) = 0"
    and "currentBeat (step (ClickPlay r) s) = 0"
    and "\<not> isDownbeat (step (ClickPlay r) s)"
    and "\<not> beatActive (step (ClickPlay r) s)"
  using assms
  by (simp_all add: step.simps runEffects_fields handlePlayToggle_fields loopDepsChanged_def)

lemma start_fields:
  assumes "stoppedIdle s"
  shows "isPlaying (step (ClickPlay r) s)"
    and "loopRef (step (ClickPlay r) s)"
    and "started (transport (step (ClickPlay r) s))"
    and "seconds (transport (step (ClickPlay r) s)) = 0"
    and "beatCountRef (step (ClickPlay r) s) = 0"
  using assms unfolding stoppedIdle_def
  by (simp_all add: step.simps runEffects_fields handlePlayToggle_fields loopDepsChanged_def)

text \<open>
  C2. Stopping the session (the click on the play button while playing, with the effects
  it causes) releases the loop and stops the transport, so that a tick does nothing and
  the clock no longer advances; it resets the transport clock and the beat counter to 0
  and the beat state to beat 0, not downbeat, not flashing, whatever their values were.
  After any events that follow while stopped, the next start leaves the beat counter and
  the transport clock at exactly 0 with the loop set up and the transport started.
\<close>

theorem stop_resets:
  "isPlaying s \<and> audioReady s \<longrightarrow>
     (let s1 = step (ClickPlay r) s in
        \<not> isPlaying s1 \<and> \<not> loopRef s1 \<and> \<not> started (transport s1)
      \<and> step (Tick time) s1 = s1
      \<and> seconds (transport (step (Elapse dt) s1)) = 0
      \<and> seconds (transport s1) = 0 \<and> beatCountRef s1 = 0
      \<and> currentBeat s1 = 0 \<and> \<not> isDownbeat s1 \<and> \<not> beatActive s1
      \<and> (\<forall>evs. (\<forall>e \<in> set evs. \<not> isClickPlay e) \<longrightarrow>
            (let s2 = step (ClickPlay r') (run evs s1) in
               isPlaying s2 \<and> loopRef s2 \<and> started (transport s2)
             \<and> beatCountRef s2 = 0 \<and> seconds (transport s2) = 0)))"
proof
  assume a: "isPlaying s \<and> audioReady s"
  then have p: "isPlaying s" and r: "audioReady s" by simp_all
  let ?s1 = "step (ClickPlay r) s"
  note f = stop_fields [OF p, of r]
  have idle: "stoppedIdle ?s1"
    unfolding stoppedIdle_def using f r by simp
  have tick: "step (Tick time) ?s1 = ?s1"
    using f(3) by (simp add: step.simps(6))
  have el: "seconds (transport (step (Elapse dt) ?s1)) = 0"
    using f(4,5) by (simp add: step.simps(10) elapse_fields)
  have again: "isPlaying (step (ClickPlay r') (run evs ?s1))
             \<and> loopRef (step (ClickPlay r') (run evs ?s1))
             \<and> started (transport (step (ClickPlay r') (run evs ?s1)))
             \<and> beatCountRef (step (ClickPlay r') (run evs ?s1)) = 0
             \<and> seconds (transport (step (ClickPlay r') (run evs ?s1))) = 0"
    if "\<forall>e \<in> set evs. \<not> isClickPlay e" for evs
    using start_fields [OF stoppedIdle_run [OF idle that], of r'] by blast
  show "let s1 = ?s1 in
        \<not> isPlaying s1 \<and> \<not> loopRef s1 \<and> \<not> started (transport s1)
      \<and> step (Tick time) s1 = s1
      \<and> seconds (transport (step (Elapse dt) s1)) = 0
      \<and> seconds (transport s1) = 0 \<and> beatCountRef s1 = 0
      \<and> currentBeat s1 = 0 \<and> \<not> isDownbeat s1 \<and> \<not> beatActive s1
      \<and> (\<forall>evs. (\<forall>e \<in> set evs. \<not> isClickPlay e) \<longrightarrow>
            (let s2 = step (ClickPlay r') (run evs s1) in
               isPlaying s2 \<and> loopRef s2 \<and> started (transport s2)
             \<and> beatCountRef s2 = 0 \<and> seconds (transport s2) = 0))"
    unfolding Let_def using f tick el again by blast
qed

lemma effect_queues:
  "sounds (updateBpmEffect s) = sounds s" "drawQueue (updateBpmEffect s) = drawQueue s"
  "timeouts (updateBpmEffect s) = timeouts s" "nextTimerId (updateBpmEffect s) = nextTimerId s"
  "sounds (animationEffect s) = sounds s" "drawQueue (animationEffect s) = drawQueue s"
  "timeouts (animationEffect s) = timeouts s" "nextTimerId (animationEffect s) = nextTimerId s"
  "sounds (setupLoopEffect s) = sounds s" "drawQueue (setupLoopEffect s) = drawQueue s"
  "timeouts (setupLoopEffect s) = timeouts s" "nextTimerId (setupLoopEffect s) = nextTimerId s"
  by (simp_all add: updateBpmEffect_def animationEffect_def setupLoopEffect_def Let_def)

lemma runEffects_queues:
  "sounds (runEffects prev s) = sounds s" "drawQueue (runEffects prev s) = drawQueue s"
  "timeouts (runEffects prev s) = timeouts s" "nextTimerId (runEffects prev s) = nextTimerId s"
  unfolding runEffects_def Let_def by (simp_all add: effect_queues)

lemma handlePlayToggle_queues:
  "sounds (handlePlayToggle r s) = sounds s" "drawQueue (handlePlayToggle r s) = drawQueue s"
  "timeouts (handlePlayToggle r s) = timeouts s"
  "nextTimerId (handlePlayToggle r s) = nextTimerId s"
  by (simp_all add: handlePlayToggle_def ensureAudioReady_def Let_def)

text \<open>The state right after the first successful start.\<close>

lemma started_fields:
  "isPlaying (step (ClickPlay True) mounted)"
  "audioReady (step (ClickPlay True) mounted)"
  "bpm (step (ClickPlay True) mounted) = 120"
  "timeSignature (step (ClickPlay True) mounted) = \<lparr> numerator = 4, denominator = 4 \<rparr>"
  "synthRef (step (ClickPlay True) mounted) = Some beatSynth"
  "accentSynthRef (step (ClickPlay True) mounted) = Some accentSynth"
  "loopRef (step (ClickPlay True) mounted)"
  "beatCountRef (step (ClickPlay True) mounted) = 0"
  "started (transport (step (ClickPlay True) mounted))"
  "seconds (transport (step (ClickPlay True) mounted)) = 0"
  "bpmValue (transport (step (ClickPlay True) mounted)) = 120"
  "sounds (step (ClickPlay True) mounted) = []"
  "drawQueue (step (ClickPlay True) mounted) = []"
  "timeouts (step (ClickPlay True) mounted) = []"
  "nextTimerId (step (ClickPlay True) mounted) = 0"
  by (simp_all add: step.simps runEffects_fields runEffects_queues handlePlayToggle_fields
        handlePlayToggle_queues loopDepsChanged_def mounted_fields mounted_queues)

lemma reachable_started: "reachable (step (ClickPlay True) mounted)"
  by (intro reachable.intros)

theorem stop_resets_witness:
  "isPlaying (step (Elapse 1) (step (Tick 0) (step (ClickPlay True) mounted)))
   \<and> audioReady (step (Elapse 1) (step (Tick 0) (step (ClickPlay True) mounted)))
   \<and> beatCountRef (step (Elapse 1) (step (Tick 0) (step (ClickPlay True) mounted))) = 1
   \<and> seconds (transport (step (Elapse 1) (step (Tick 0) (step (ClickPlay True) mounted)))) = 1
   \<and> beatCountRef (step (ClickPlay False)
         (step (Elapse 1) (step (Tick 0) (step (ClickPlay True) mounted)))) = 0
   \<and> seconds (transport (step (ClickPlay False)
         (step (Elapse 1) (step (Tick 0) (step (ClickPlay True) mounted))))) = 0
   \<and> \<not> isClickPlay (ClickArrow BeatsControl (- 1)) \<and> \<not> isClickPlay (Elapse 3)
   \<and> \<not> isClickPlay (Tick 3)
   \<and> beatCountRef (step (ClickPlay False)
         (run [ClickArrow BeatsControl (- 1), Elapse 3, Tick 3]
            (step (ClickPlay False)
               (step (Elapse 1) (step (Tick 0) (step (ClickPlay True) mounted)))))) = 0
   \<and> seconds (transport (step (ClickPlay False)
         (run [ClickArrow BeatsControl (- 1), Elapse 3, Tick 3]
            (step (ClickPlay False)
               (step (Elapse 1) (step (Tick 0) (step (ClickPlay True) mounted))))))) = 0"
proof -
  let ?init = "step (ClickPlay True) mounted"
  let ?ticked = "step (Tick 0) ?init"
  let ?cur = "step (Elapse 1) ?ticked"
  have t: "step (Tick 0) ?init = triggerBeat 0 ?init"
    by (simp add: step.simps(6) started_fields)
  have s1: "isPlaying ?ticked" "audioReady ?ticked" "beatCountRef ?ticked = 1" "started (transport ?ticked)"
    "seconds (transport ?ticked) = 0"
    by (simp_all add: t triggerBeat_fields started_fields)
  have s: "isPlaying ?cur" "audioReady ?cur" "beatCountRef ?cur = 1" "seconds (transport ?cur) = 1"
    using s1 by (simp_all add: step.simps(10) elapse_fields)
  have e: "\<forall>e \<in> set [ClickArrow BeatsControl (- 1), Elapse 3, Tick 3]. \<not> isClickPlay e"
    by simp
  from s have h: "isPlaying ?cur \<and> audioReady ?cur" by simp
  note r = stop_resets [of ?cur False 0 0 False, unfolded Let_def, THEN mp, OF h]
  from r have a: "beatCountRef (step (ClickPlay False) ?cur) = 0
      \<and> seconds (transport (step (ClickPlay False) ?cur)) = 0"
    by blast
  from r e have b: "beatCountRef (step (ClickPlay False)
         (run [ClickArrow BeatsControl (- 1), Elapse 3, Tick 3] (step (ClickPlay False) ?cur))) = 0
     \<and> seconds (transport (step (ClickPlay False)
         (run [ClickArrow BeatsControl (- 1), Elapse 3, Tick 3] (step (ClickPlay False) ?cur)))) = 0"
    by blast
  from s a b show ?thesis by simp
qed

subsection \<open>The beat tick\<close>

lemma triggerBeat_ready:
  assumes "synthRef s = Some sy" and "accentSynthRef s = Some ac"
    and "0 \<le> beatCountRef s" and "0 < numerator (timeSignature s)"
  shows "sounds (triggerBeat time s) =
           sounds s @
             [if beatCountRef s mod numerator (timeSignature s) = 0
              then \<lparr> voice = ac, pitch = C2, noteLength = ''16n'', soundTime = time \<rparr>
              else \<lparr> voice = sy, pitch = G1, noteLength = ''16n'', soundTime = time \<rparr>]"
    and "drawQueue (triggerBeat time s) =
           drawQueue s @
             [\<lparr> drawTime = time, beatIndex = beatCountRef s mod numerator (timeSignature s),
                isFirstBeat = (beatCountRef s mod numerator (timeSignature s) = 0) \<rparr>]"
  using assms by (simp_all add: triggerBeat_def Let_def js_rem_nonneg)

lemma fireTimeout_clears:
  "i \<in> set (map timerId (timeouts s)) \<Longrightarrow> \<not> beatActive (fireTimeout i s)"
  "i \<in> set (map timerId (timeouts s)) \<Longrightarrow> \<not> isDownbeat (fireTimeout i s)"
  "i \<in> set (map timerId (timeouts s)) \<Longrightarrow>
     timeouts (fireTimeout i s) = filter (\<lambda>t. timerId t \<noteq> i) (timeouts s)"
  "i \<in> set (map timerId (timeouts s)) \<Longrightarrow> currentBeat (fireTimeout i s) = currentBeat s"
  "i \<notin> set (map timerId (timeouts s)) \<Longrightarrow> fireTimeout i s = s"
  by (simp_all add: fireTimeout_def flashClear_def)

text \<open>
  C1. On every tick of the loop in a reachable state (the loop is held only while both
  synths exist, so the guard at the top of \<open>triggerBeat\<close> never returns early there), the
  handler computes the beat index as the beat counter modulo the numerator and the
  downbeat flag as "the index is 0", increments the beat counter by exactly 1, triggers
  the accent synth with the note C2 on a downbeat and the ordinary synth with G1
  otherwise (C2 is the higher note, and the accent synth has the longer decay and
  release) at the tick's time, and schedules a visual update for the same time. That
  update, whenever it runs, sets the beat index, the downbeat flag and the flash flag and
  starts a timer of 0.8 times the beat duration (60 / tempo, in seconds, the timer being
  in milliseconds) whose firing clears the flash flag.
\<close>

theorem triggerBeat_tick:
  "reachable s \<and> loopRef s \<longrightarrow>
     (let beatIndex' = beatCountRef s mod numerator (timeSignature s);
          isDownbeat' = (beatIndex' = 0);
          s1 = step (Tick time) s;
          job = \<lparr> drawTime = time, beatIndex = beatIndex', isFirstBeat = isDownbeat' \<rparr>
      in beatCountRef s1 = beatCountRef s + 1
       \<and> sounds s1 = sounds s @
            [if isDownbeat'
             then \<lparr> voice = accentSynth, pitch = C2, noteLength = ''16n'', soundTime = time \<rparr>
             else \<lparr> voice = beatSynth, pitch = G1, noteLength = ''16n'', soundTime = time \<rparr>]
       \<and> midi G1 < midi C2
       \<and> decay beatSynth < decay accentSynth \<and> release beatSynth < release accentSynth
       \<and> drawQueue s1 = drawQueue s @ [job]
       \<and> bpmValue (transport s1) = of_int (bpm s)
       \<and> (\<forall>s'. let s2 = drawCallback job s';
                    beatDurationSeconds = 60 / bpmValue (transport s')
                in currentBeat s2 = beatIndex' \<and> isDownbeat s2 = isDownbeat' \<and> beatActive s2
                 \<and> timeouts s2 = timeouts s' @
                      [\<lparr> timerId = nextTimerId s',
                         delayMs = 0.8 * beatDurationSeconds * 1000 \<rparr>]
                 \<and> \<not> beatActive (step (Timeout (nextTimerId s')) s2)))"
proof
  assume a: "reachable s \<and> loopRef s"
  then have w: "wellformed s" by (simp add: reachable_wellformed)
  from a have l: "loopRef s" by simp
  from w l have st: "started (transport s)" and rdy: "audioReady s"
    unfolding wellformed_def by simp_all
  from w rdy have sy: "synthRef s = Some beatSynth" and ac: "accentSynthRef s = Some accentSynth"
    and bv: "bpmValue (transport s) = of_int (bpm s)"
    unfolding wellformed_def by simp_all
  from w have c0: "0 \<le> beatCountRef s" and n0: "0 < numerator (timeSignature s)"
    unfolding wellformed_def by simp_all
  let ?bi = "beatCountRef s mod numerator (timeSignature s)"
  let ?job = "\<lparr> drawTime = time, beatIndex = ?bi, isFirstBeat = (?bi = 0) \<rparr>"
  have t: "step (Tick time) s = triggerBeat time s"
    using l st by (simp add: step.simps(6))
  have cnt: "beatCountRef (step (Tick time) s) = beatCountRef s + 1"
    by (simp add: t triggerBeat_fields sy ac)
  note snd = triggerBeat_ready [OF sy ac c0 n0, of time, folded t]
  have pitchlen: "midi G1 < midi C2 \<and> decay beatSynth < decay accentSynth
                  \<and> release beatSynth < release accentSynth"
    by (simp add: beatSynth_def accentSynth_def)
  have tempo: "bpmValue (transport (step (Tick time) s)) = of_int (bpm s)"
    by (simp add: t triggerBeat_fields bv)
  have draw: "currentBeat (drawCallback ?job s') = ?bi
            \<and> isDownbeat (drawCallback ?job s') = (?bi = 0)
            \<and> beatActive (drawCallback ?job s')
            \<and> timeouts (drawCallback ?job s') = timeouts s' @
                 [\<lparr> timerId = nextTimerId s',
                    delayMs = 0.8 * (60 / bpmValue (transport s')) * 1000 \<rparr>]
            \<and> \<not> beatActive (step (Timeout (nextTimerId s')) (drawCallback ?job s'))" for s'
    by (simp add: step.simps(8) drawCallback_fields fireTimeout_clears)
  show "let beatIndex' = beatCountRef s mod numerator (timeSignature s);
          isDownbeat' = (beatIndex' = 0);
          s1 = step (Tick time) s;
          job = \<lparr> drawTime = time, beatIndex = beatIndex', isFirstBeat = isDownbeat' \<rparr>
      in beatCountRef s1 = beatCountRef s + 1
       \<and> sounds s1 = sounds s @
            [if isDownbeat'
             then \<lparr> voice = accentSynth, pitch = C2, noteLength = ''16n'', soundTime = time \<rparr>
             else \<lparr> voice = beatSynth, pitch = G1, noteLength = ''16n'', soundTime = time \<rparr>]
       \<and> midi G1 < midi C2
       \<and> decay beatSynth < decay accentSynth \<and> release beatSynth < release accentSynth
       \<and> drawQueue s1 = drawQueue s @ [job]
       \<and> bpmValue (transport s1) = of_int (bpm s)
       \<and> (\<forall>s'. let s2 = drawCallback job s';
                    beatDurationSeconds = 60 / bpmValue (transport s')
                in currentBeat s2 = beatIndex' \<and> isDownbeat s2 = isDownbeat' \<and> beatActive s2
                 \<and> timeouts s2 = timeouts s' @
                      [\<lparr> timerId = nextTimerId s',
                         delayMs = 0.8 * beatDurationSeconds * 1000 \<rparr>]
                 \<and> \<not> beatActive (step (Timeout (nextTimerId s')) s2))"
    unfolding Let_def using cnt snd pitchlen tempo draw by blast
qed


theorem triggerBeat_tick_witness:
  "reachable (step (ClickPlay True) mounted) \<and> loopRef (step (ClickPlay True) mounted)
   \<and> beatCountRef (step (Tick 0) (step (ClickPlay True) mounted)) = 1
   \<and> sounds (step (Tick 0) (step (ClickPlay True) mounted)) =
        [\<lparr> voice = accentSynth, pitch = C2, noteLength = ''16n'', soundTime = 0 \<rparr>]
   \<and> drawQueue (step (Tick 0) (step (ClickPlay True) mounted)) =
        [\<lparr> drawTime = 0, beatIndex = 0, isFirstBeat = True \<rparr>]
   \<and> timeouts (drawCallback \<lparr> drawTime = 0, beatIndex = 0, isFirstBeat = True \<rparr>
                 (step (ClickPlay True) mounted)) =
        [\<lparr> timerId = 0, delayMs = 400 \<rparr>]
   \<and> \<not> beatActive (step (Timeout 0)
          (drawCallback \<lparr> drawTime = 0, beatIndex = 0, isFirstBeat = True \<rparr>
             (step (ClickPlay True) mounted)))"
proof -
  let ?init = "step (ClickPlay True) mounted"
  have h: "reachable ?init \<and> loopRef ?init"
    by (simp add: reachable_started started_fields)
  note r = triggerBeat_tick [of ?init 0, unfolded Let_def, THEN mp, OF h]
  have v: "beatCountRef ?init mod numerator (timeSignature ?init) = 0"
    by (simp add: started_fields)
  from r have a: "beatCountRef (step (Tick 0) ?init) = beatCountRef ?init + 1" by blast
  from r have b: "sounds (step (Tick 0) ?init) = sounds ?init @
            [if beatCountRef ?init mod numerator (timeSignature ?init) = 0
             then \<lparr> voice = accentSynth, pitch = C2, noteLength = ''16n'', soundTime = 0 \<rparr>
             else \<lparr> voice = beatSynth, pitch = G1, noteLength = ''16n'', soundTime = 0 \<rparr>]"
    by blast
  from r have c: "drawQueue (step (Tick 0) ?init) = drawQueue ?init @
      [\<lparr> drawTime = 0, beatIndex = beatCountRef ?init mod numerator (timeSignature ?init),
         isFirstBeat = (beatCountRef ?init mod numerator (timeSignature ?init) = 0) \<rparr>]"
    by blast
  from r have "\<forall>s'. timeouts (drawCallback
        \<lparr> drawTime = 0, beatIndex = beatCountRef ?init mod numerator (timeSignature ?init),
          isFirstBeat = (beatCountRef ?init mod numerator (timeSignature ?init) = 0) \<rparr> s') =
       timeouts s' @ [\<lparr> timerId = nextTimerId s',
                        delayMs = 0.8 * (60 / bpmValue (transport s')) * 1000 \<rparr>]
     \<and> \<not> beatActive (step (Timeout (nextTimerId s')) (drawCallback
        \<lparr> drawTime = 0, beatIndex = beatCountRef ?init mod numerator (timeSignature ?init),
          isFirstBeat = (beatCountRef ?init mod numerator (timeSignature ?init) = 0) \<rparr> s'))"
    by blast
  then have d: "timeouts (drawCallback
        \<lparr> drawTime = 0, beatIndex = beatCountRef ?init mod numerator (timeSignature ?init),
          isFirstBeat = (beatCountRef ?init mod numerator (timeSignature ?init) = 0) \<rparr> ?init) =
       timeouts ?init @ [\<lparr> timerId = nextTimerId ?init,
                        delayMs = 0.8 * (60 / bpmValue (transport ?init)) * 1000 \<rparr>]
     \<and> \<not> beatActive (step (Timeout (nextTimerId ?init)) (drawCallback
        \<lparr> drawTime = 0, beatIndex = beatCountRef ?init mod numerator (timeSignature ?init),
          isFirstBeat = (beatCountRef ?init mod numerator (timeSignature ?init) = 0) \<rparr> ?init))"
    by (rule spec)
  from h a b c d show ?thesis
    by (simp add: v started_fields)
qed

subsection \<open>The flash and its clear timer\<close>

lemma dueEvents_Suc:
  "dueEvents beatMs firstId (Suc n) = dueEvents beatMs firstId n @ beatEvents beatMs firstId n"
  by (simp add: dueEvents_def)

lemma dueEvents_bound:
  assumes "0 < beatMs"
  shows "\<forall>t \<in> set (map fst (dueEvents beatMs firstId n)). t \<le> real n * beatMs"
proof (induction n)
  case 0
  show ?case by (simp add: dueEvents_def)
next
  case (Suc n)
  have "t \<le> real (Suc n) * beatMs" if "t \<in> set (map fst (dueEvents beatMs firstId n))" for t
  proof -
    from Suc that have "t \<le> real n * beatMs" by blast
    also have "\<dots> \<le> real (Suc n) * beatMs" using assms by (simp add: algebra_simps)
    finally show ?thesis .
  qed
  moreover have "t \<le> real (Suc n) * beatMs" if "t \<in> set (map fst (beatEvents beatMs firstId n))" for t
    using that assms by (auto simp add: beatEvents_def algebra_simps)
  ultimately show ?case
    by (auto simp add: dueEvents_Suc)
qed

lemma dueEvents_sorted:
  assumes "0 < beatMs"
  shows "sorted (map fst (dueEvents beatMs firstId n))"
proof (induction n)
  case 0
  show ?case by (simp add: dueEvents_def)
next
  case (Suc n)
  have new: "sorted (map fst (beatEvents beatMs firstId n))"
    using assms by (simp add: beatEvents_def)
  have "t \<le> u" if "t \<in> set (map fst (dueEvents beatMs firstId n))"
    and "u \<in> set (map fst (beatEvents beatMs firstId n))" for t u
  proof -
    from dueEvents_bound [OF assms, of firstId n] that(1) have "t \<le> real n * beatMs" by blast
    moreover from that(2) assms have "real n * beatMs \<le> u"
      by (auto simp add: beatEvents_def)
    ultimately show ?thesis by simp
  qed
  with Suc new show ?case
    by (simp add: dueEvents_Suc sorted_append)
qed

lemma nominalSchedule_eq:
  assumes "0 < beatMs"
  shows "nominalSchedule beatMs firstId n = map snd (dueEvents beatMs firstId n)"
  unfolding nominalSchedule_def
  by (simp add: sort_key_id_if_sorted [OF dueEvents_sorted [OF assms]])

lemma nominalSchedule_Suc:
  assumes "0 < beatMs"
  shows "nominalSchedule beatMs firstId (Suc n) =
           nominalSchedule beatMs firstId n @
             [Tick (real n * beatMs / 1000), Draw, Timeout (firstId + n)]"
  by (simp add: nominalSchedule_eq [OF assms] dueEvents_Suc beatEvents_def)


lemma runDraw_Cons:
  "drawQueue s = job # rest \<Longrightarrow> runDraw s = drawCallback job (s\<lparr> drawQueue := rest \<rparr>)"
  by (simp add: runDraw_def)

text \<open>A tick and the run of its visual update, from a state with no update waiting.\<close>

lemma tick_then_draw:
  assumes w: "wellformed s" and l: "loopRef s" and q: "drawQueue s = []"
  shows "wellformed (step Draw (step (Tick time) s))"
    and "loopRef (step Draw (step (Tick time) s))"
    and "drawQueue (step Draw (step (Tick time) s)) = []"
    and "beatCountRef (step Draw (step (Tick time) s)) = beatCountRef s + 1"
    and "timeSignature (step Draw (step (Tick time) s)) = timeSignature s"
    and "transport (step Draw (step (Tick time) s)) = transport s"
    and "nextTimerId (step Draw (step (Tick time) s)) = nextTimerId s + 1"
    and "timeouts (step Draw (step (Tick time) s)) =
           timeouts s @ [\<lparr> timerId = nextTimerId s,
                           delayMs = 0.8 * (60 / bpmValue (transport s) * 1000) \<rparr>]"
    and "beatActive (step Draw (step (Tick time) s))"
    and "currentBeat (step Draw (step (Tick time) s)) =
           beatCountRef s mod numerator (timeSignature s)"
    and "isDownbeat (step Draw (step (Tick time) s)) =
           (beatCountRef s mod numerator (timeSignature s) = 0)"
proof -
  from w l have st: "started (transport s)" and rdy: "audioReady s"
    unfolding wellformed_def by simp_all
  from w rdy have sy: "synthRef s = Some beatSynth" and ac: "accentSynthRef s = Some accentSynth"
    unfolding wellformed_def by simp_all
  from w have c0: "0 \<le> beatCountRef s" and n0: "0 < numerator (timeSignature s)"
    unfolding wellformed_def by simp_all
  let ?job = "\<lparr> drawTime = time, beatIndex = beatCountRef s mod numerator (timeSignature s),
                 isFirstBeat = (beatCountRef s mod numerator (timeSignature s) = 0) \<rparr>"
  have t: "step (Tick time) s = triggerBeat time s"
    using l st by (simp add: step.simps(6))
  have dq: "drawQueue (triggerBeat time s) = ?job # []"
    using triggerBeat_ready(2) [OF sy ac c0 n0, of time] q by simp
  have d: "step Draw (step (Tick time) s) =
             drawCallback ?job ((triggerBeat time s)\<lparr> drawQueue := [] \<rparr>)"
    by (simp add: step.simps(7) t runDraw_Cons [OF dq])
  show "wellformed (step Draw (step (Tick time) s))"
    using w by (intro wellformed_step)
  show "loopRef (step Draw (step (Tick time) s))"
    using l by (simp add: d drawCallback_fields triggerBeat_fields)
  show "drawQueue (step Draw (step (Tick time) s)) = []"
    by (simp add: d drawCallback_fields)
  show "beatCountRef (step Draw (step (Tick time) s)) = beatCountRef s + 1"
    by (simp add: d drawCallback_fields triggerBeat_fields sy ac)
  show "timeSignature (step Draw (step (Tick time) s)) = timeSignature s"
    by (simp add: d drawCallback_fields triggerBeat_fields)
  show "transport (step Draw (step (Tick time) s)) = transport s"
    by (simp add: d drawCallback_fields triggerBeat_fields)
  show "nextTimerId (step Draw (step (Tick time) s)) = nextTimerId s + 1"
    by (simp add: d drawCallback_fields triggerBeat_fields)
  show "timeouts (step Draw (step (Tick time) s)) =
           timeouts s @ [\<lparr> timerId = nextTimerId s,
                           delayMs = 0.8 * (60 / bpmValue (transport s) * 1000) \<rparr>]"
    by (simp add: d drawCallback_fields triggerBeat_fields)
  show "beatActive (step Draw (step (Tick time) s))"
    by (simp add: d drawCallback_fields)
  show "currentBeat (step Draw (step (Tick time) s)) =
           beatCountRef s mod numerator (timeSignature s)"
    by (simp add: d drawCallback_fields)
  show "isDownbeat (step Draw (step (Tick time) s)) =
           (beatCountRef s mod numerator (timeSignature s) = 0)"
    by (simp add: d drawCallback_fields)
qed

lemma fireTimeout_queues:
  "drawQueue (fireTimeout i s) = drawQueue s" "nextTimerId (fireTimeout i s) = nextTimerId s"
  by (simp_all add: fireTimeout_def flashClear_def)

text \<open>A whole beat in due order: tick, visual update, flash clear.\<close>

lemma beat_in_order:
  assumes "beatReady s"
  shows "beatReady (run [Tick time, Draw, Timeout (nextTimerId s)] s)"
    and "beatCountRef (run [Tick time, Draw, Timeout (nextTimerId s)] s) = beatCountRef s + 1"
    and "nextTimerId (run [Tick time, Draw, Timeout (nextTimerId s)] s) = nextTimerId s + 1"
    and "timeSignature (run [Tick time, Draw, Timeout (nextTimerId s)] s) = timeSignature s"
    and "transport (run [Tick time, Draw, Timeout (nextTimerId s)] s) = transport s"
proof -
  from assms have w: "wellformed s" and l: "loopRef s" and q: "drawQueue s = []"
    and e: "timeouts s = []"
    unfolding beatReady_def by simp_all
  note td = tick_then_draw [OF w l q, of time]
  let ?mid = "step Draw (step (Tick time) s)"
  have r: "run [Tick time, Draw, Timeout (nextTimerId s)] s = fireTimeout (nextTimerId s) ?mid"
    by (simp add: run_Cons run_Nil step.simps(8))
  have tm: "timeouts ?mid = [\<lparr> timerId = nextTimerId s,
                                 delayMs = 0.8 * (60 / bpmValue (transport s) * 1000) \<rparr>]"
    using td(8) e by simp
  then have mem: "nextTimerId s \<in> set (map timerId (timeouts ?mid))" by simp
  have "wellformed (fireTimeout (nextTimerId s) ?mid)"
    using wellformed_step [OF td(1), of "Timeout (nextTimerId s)"] by (simp add: step.simps(8))
  moreover have "loopRef (fireTimeout (nextTimerId s) ?mid)"
    using td(2) by (simp add: fireTimeout_fields)
  moreover have "drawQueue (fireTimeout (nextTimerId s) ?mid) = []"
    using td(3) by (simp add: fireTimeout_queues)
  moreover have "timeouts (fireTimeout (nextTimerId s) ?mid) = []"
    by (simp add: fireTimeout_clears(3) [OF mem] tm)
  ultimately show "beatReady (run [Tick time, Draw, Timeout (nextTimerId s)] s)"
    by (simp add: r beatReady_def)
  show "beatCountRef (run [Tick time, Draw, Timeout (nextTimerId s)] s) = beatCountRef s + 1"
    using td(4) by (simp add: r fireTimeout_fields)
  show "nextTimerId (run [Tick time, Draw, Timeout (nextTimerId s)] s) = nextTimerId s + 1"
    using td(7) by (simp add: r fireTimeout_queues)
  show "timeSignature (run [Tick time, Draw, Timeout (nextTimerId s)] s) = timeSignature s"
    using td(5) by (simp add: r fireTimeout_fields)
  show "transport (run [Tick time, Draw, Timeout (nextTimerId s)] s) = transport s"
    using td(6) by (simp add: r fireTimeout_fields)
qed

lemma nominal_run:
  assumes "beatReady s" and "beatMs = 60 / bpmValue (transport s) * 1000"
  shows "beatReady (run (nominalSchedule beatMs (nextTimerId s) n) s)
       \<and> beatCountRef (run (nominalSchedule beatMs (nextTimerId s) n) s) = beatCountRef s + int n
       \<and> nextTimerId (run (nominalSchedule beatMs (nextTimerId s) n) s) = nextTimerId s + n
       \<and> timeSignature (run (nominalSchedule beatMs (nextTimerId s) n) s) = timeSignature s
       \<and> transport (run (nominalSchedule beatMs (nextTimerId s) n) s) = transport s"
proof (induction n)
  case 0
  from assms(1) show ?case
    by (simp add: nominalSchedule_def dueEvents_def run_Nil)
next
  case (Suc n)
  from assms have pos: "0 < beatMs"
    unfolding beatReady_def wellformed_def by simp
  let ?prev = "run (nominalSchedule beatMs (nextTimerId s) n) s"
  from Suc have rdy: "beatReady ?prev" and id: "nextTimerId ?prev = nextTimerId s + n"
    and cnt: "beatCountRef ?prev = beatCountRef s + int n"
    and ts: "timeSignature ?prev = timeSignature s" and tr: "transport ?prev = transport s"
    by simp_all
  have split: "run (nominalSchedule beatMs (nextTimerId s) (Suc n)) s =
      run [Tick (real n * beatMs / 1000), Draw, Timeout (nextTimerId ?prev)] ?prev"
    by (simp only: nominalSchedule_Suc [OF pos] run_append id)
  note b = beat_in_order [OF rdy, of "real n * beatMs / 1000"]
  from b show ?case
    unfolding split by (simp add: id cnt ts tr)
qed


text \<open>
  C7 (as amended). The clear that a tick's visual update hands to \<open>setTimeout\<close> is not
  scoped to its tick: whenever a pending timer fires it clears the flash and downbeat
  flags, whichever tick set them. In a running session that begins with no visual update
  waiting and no flash-clear timer pending (a first start, or a restart after every
  earlier timer has fired), and in which the ticks, their visual updates and their timers
  run in the order in which they are due (tick \<open>k\<close> and its update at \<open>k\<close> beats, its
  clear 0.8 beats later and so before tick \<open>k + 1\<close>), every clear fires while the flash
  showing is the one its own tick set and its own timer is the only one pending, and it
  leaves no timer behind for a later tick.
\<close>

theorem flash_clear_in_due_order:
  "reachable s \<and> loopRef s \<and> drawQueue s = [] \<and> timeouts s = [] \<longrightarrow>
     (let beatMs = 60 / bpmValue (transport s) * 1000;
          firstId = nextTimerId s
      in (\<forall>k. nominalSchedule beatMs firstId (Suc k) =
                 nominalSchedule beatMs firstId k @
                   [Tick (real k * beatMs / 1000), Draw, Timeout (firstId + k)]
              \<and> (let before = run (nominalSchedule beatMs firstId k @
                                     [Tick (real k * beatMs / 1000), Draw]) s;
                      after = step (Timeout (firstId + k)) before
                  in beatActive before
                   \<and> currentBeat before = (beatCountRef s + int k) mod numerator (timeSignature s)
                   \<and> timeouts before = [\<lparr> timerId = firstId + k, delayMs = 0.8 * beatMs \<rparr>]
                   \<and> \<not> beatActive after \<and> \<not> isDownbeat after \<and> timeouts after = []))
       \<and> (\<forall>s' i. i \<in> set (map timerId (timeouts s')) \<longrightarrow>
              \<not> beatActive (step (Timeout i) s') \<and> \<not> isDownbeat (step (Timeout i) s')))"
proof
  assume a: "reachable s \<and> loopRef s \<and> drawQueue s = [] \<and> timeouts s = []"
  then have rdy: "beatReady s"
    by (simp add: beatReady_def reachable_wellformed)
  define beatMs where "beatMs = 60 / bpmValue (transport s) * 1000"
  from rdy have pos: "0 < beatMs"
    unfolding beatMs_def beatReady_def wellformed_def by simp
  have sched: "nominalSchedule beatMs (nextTimerId s) (Suc k) =
                 nominalSchedule beatMs (nextTimerId s) k @
                   [Tick (real k * beatMs / 1000), Draw, Timeout (nextTimerId s + k)]" for k
    by (rule nominalSchedule_Suc [OF pos])
  have beat: "beatActive (run (nominalSchedule beatMs (nextTimerId s) k @
                                 [Tick (real k * beatMs / 1000), Draw]) s)
     \<and> currentBeat (run (nominalSchedule beatMs (nextTimerId s) k @
                            [Tick (real k * beatMs / 1000), Draw]) s) =
         (beatCountRef s + int k) mod numerator (timeSignature s)
     \<and> timeouts (run (nominalSchedule beatMs (nextTimerId s) k @
                         [Tick (real k * beatMs / 1000), Draw]) s) =
         [\<lparr> timerId = nextTimerId s + k, delayMs = 0.8 * beatMs \<rparr>]
     \<and> \<not> beatActive (step (Timeout (nextTimerId s + k))
           (run (nominalSchedule beatMs (nextTimerId s) k @
                   [Tick (real k * beatMs / 1000), Draw]) s))
     \<and> \<not> isDownbeat (step (Timeout (nextTimerId s + k))
           (run (nominalSchedule beatMs (nextTimerId s) k @
                   [Tick (real k * beatMs / 1000), Draw]) s))
     \<and> timeouts (step (Timeout (nextTimerId s + k))
           (run (nominalSchedule beatMs (nextTimerId s) k @
                   [Tick (real k * beatMs / 1000), Draw]) s)) = []" for k
  proof -
    let ?prev = "run (nominalSchedule beatMs (nextTimerId s) k) s"
    let ?mid = "step Draw (step (Tick (real k * beatMs / 1000)) ?prev)"
    note n = nominal_run [OF rdy beatMs_def, of k]
    from n have p: "wellformed ?prev" "loopRef ?prev" "drawQueue ?prev = []" "timeouts ?prev = []"
      unfolding beatReady_def by simp_all
    from n have v: "beatCountRef ?prev = beatCountRef s + int k"
      "nextTimerId ?prev = nextTimerId s + k" "timeSignature ?prev = timeSignature s"
      "transport ?prev = transport s"
      by simp_all
    have r: "run (nominalSchedule beatMs (nextTimerId s) k @
                    [Tick (real k * beatMs / 1000), Draw]) s = ?mid"
      by (simp add: run_append run_Cons run_Nil)
    note td = tick_then_draw [OF p(1,2,3), of "real k * beatMs / 1000"]
    have tm: "timeouts ?mid = [\<lparr> timerId = nextTimerId s + k, delayMs = 0.8 * beatMs \<rparr>]"
      using td(8) p(4) v by (simp add: beatMs_def)
    then have mem: "nextTimerId s + k \<in> set (map timerId (timeouts ?mid))" by simp
    have cb: "currentBeat ?mid = (beatCountRef s + int k) mod numerator (timeSignature s)"
      using td(10) v by simp
    from td(9) cb tm fireTimeout_clears(1,2,3) [OF mem] show ?thesis
      unfolding r by (simp add: step.simps(8))
  qed
  have clear: "\<not> beatActive (step (Timeout i) s') \<and> \<not> isDownbeat (step (Timeout i) s')"
    if "i \<in> set (map timerId (timeouts s'))" for s' i
    using fireTimeout_clears(1,2) [OF that] by (simp add: step.simps(8))
  show "let beatMs = 60 / bpmValue (transport s) * 1000;
          firstId = nextTimerId s
      in (\<forall>k. nominalSchedule beatMs firstId (Suc k) =
                 nominalSchedule beatMs firstId k @
                   [Tick (real k * beatMs / 1000), Draw, Timeout (firstId + k)]
              \<and> (let before = run (nominalSchedule beatMs firstId k @
                                     [Tick (real k * beatMs / 1000), Draw]) s;
                      after = step (Timeout (firstId + k)) before
                  in beatActive before
                   \<and> currentBeat before = (beatCountRef s + int k) mod numerator (timeSignature s)
                   \<and> timeouts before = [\<lparr> timerId = firstId + k, delayMs = 0.8 * beatMs \<rparr>]
                   \<and> \<not> beatActive after \<and> \<not> isDownbeat after \<and> timeouts after = []))
       \<and> (\<forall>s' i. i \<in> set (map timerId (timeouts s')) \<longrightarrow>
              \<not> beatActive (step (Timeout i) s') \<and> \<not> isDownbeat (step (Timeout i) s'))"
    unfolding Let_def beatMs_def [symmetric] using sched beat clear by blast
qed


lemma started_ready: "beatReady (step (ClickPlay True) mounted)"
  by (simp add: beatReady_def reachable_wellformed reachable_started started_fields)

theorem flash_clear_in_due_order_witness:
  "reachable (step (ClickPlay True) mounted) \<and> loopRef (step (ClickPlay True) mounted)
   \<and> drawQueue (step (ClickPlay True) mounted) = []
   \<and> timeouts (step (ClickPlay True) mounted) = []
   \<and> nominalSchedule 500 0 (Suc 1) =
        nominalSchedule 500 0 1 @ [Tick (1 / 2), Draw, Timeout 1]
   \<and> beatActive (run (nominalSchedule 500 0 1 @ [Tick (1 / 2), Draw])
                    (step (ClickPlay True) mounted))
   \<and> currentBeat (run (nominalSchedule 500 0 1 @ [Tick (1 / 2), Draw])
                    (step (ClickPlay True) mounted)) = 1
   \<and> timeouts (run (nominalSchedule 500 0 1 @ [Tick (1 / 2), Draw])
                   (step (ClickPlay True) mounted)) = [\<lparr> timerId = 1, delayMs = 400 \<rparr>]
   \<and> \<not> beatActive (step (Timeout 1)
         (run (nominalSchedule 500 0 1 @ [Tick (1 / 2), Draw]) (step (ClickPlay True) mounted)))"
proof -
  let ?init = "step (ClickPlay True) mounted"
  have h: "reachable ?init \<and> loopRef ?init \<and> drawQueue ?init = [] \<and> timeouts ?init = []"
    by (simp add: reachable_started started_fields)
  note r = flash_clear_in_due_order [of ?init, unfolded Let_def, THEN mp, OF h,
      THEN conjunct1, THEN spec, of 1]
  have v: "60 / bpmValue (transport ?init) * 1000 = 500" "nextTimerId ?init = 0"
    "beatCountRef ?init = 0" "numerator (timeSignature ?init) = 4"
    by (simp_all add: started_fields)
  from r h show ?thesis
    unfolding v by simp
qed

lemma clickPlay_queues:
  "sounds (step (ClickPlay r) s) = sounds s" "drawQueue (step (ClickPlay r) s) = drawQueue s"
  "timeouts (step (ClickPlay r) s) = timeouts s"
  "nextTimerId (step (ClickPlay r) s) = nextTimerId s"
  by (simp_all add: step.simps(1) runEffects_queues handlePlayToggle_queues)

text \<open>Two runs in which a timer fires after the visual update of a newer tick.\<close>

lemma late_timer_run:
  "beatActive (run [ClickPlay True, Tick 0, Draw, Tick (1 / 2), Draw] mounted)
   \<and> currentBeat (run [ClickPlay True, Tick 0, Draw, Tick (1 / 2), Draw] mounted) = 1
   \<and> map timerId (timeouts (run [ClickPlay True, Tick 0, Draw, Tick (1 / 2), Draw] mounted))
       = [0, 1]
   \<and> \<not> beatActive (run [ClickPlay True, Tick 0, Draw, Tick (1 / 2), Draw, Timeout 0] mounted)
   \<and> currentBeat (run [ClickPlay True, Tick 0, Draw, Tick (1 / 2), Draw, Timeout 0] mounted) = 1
   \<and> map timerId
        (timeouts (run [ClickPlay True, Tick 0, Draw, Tick (1 / 2), Draw, Timeout 0] mounted))
       = [1]"
proof -
  let ?init = "step (ClickPlay True) mounted"
  let ?one = "step Draw (step (Tick 0) ?init)"
  let ?two = "step Draw (step (Tick (1 / 2)) ?one)"
  from started_ready have i: "wellformed ?init" "loopRef ?init" "drawQueue ?init = []"
    "timeouts ?init = []"
    unfolding beatReady_def by simp_all
  note a = tick_then_draw [OF i(1,2,3), of 0]
  note b = tick_then_draw [OF a(1,2,3), of "1 / 2"]
  have t2: "map timerId (timeouts ?two) = [0, 1]"
    by (simp add: b(8) a(8) a(7) i(4) started_fields)
  have c2: "currentBeat ?two = 1"
    by (simp add: b(10) a(4) a(5) started_fields)
  have mem: "0 \<in> set (map timerId (timeouts ?two))"
    by (simp add: t2)
  note f = fireTimeout_clears(1,3,4) [OF mem]
  have t3: "map timerId (timeouts (fireTimeout 0 ?two)) = [1]"
    unfolding f(2) using t2 by (simp add: filter_map comp_def b(8) a(8) a(7) i(4) started_fields)
  have r5: "run [ClickPlay True, Tick 0, Draw, Tick (1 / 2), Draw] mounted = ?two"
    by (simp add: run_Cons run_Nil)
  have r6: "run [ClickPlay True, Tick 0, Draw, Tick (1 / 2), Draw, Timeout 0] mounted =
              fireTimeout 0 ?two"
    by (simp add: run_Cons run_Nil step.simps(8))
  show ?thesis
    unfolding r5 r6 using b(9) c2 t2 f(1) f(3) t3 by simp
qed

lemma restart_run:
  "beatActive (run [ClickPlay True, Tick 0, Draw, ClickPlay False, ClickPlay False,
                     Tick (1 / 5), Draw] mounted)
   \<and> map timerId (timeouts (run [ClickPlay True, Tick 0, Draw, ClickPlay False, ClickPlay False,
                                  Tick (1 / 5), Draw] mounted)) = [0, 1]
   \<and> \<not> beatActive (run [ClickPlay True, Tick 0, Draw, ClickPlay False, ClickPlay False,
                          Tick (1 / 5), Draw, Timeout 0] mounted)
   \<and> map timerId (timeouts (run [ClickPlay True, Tick 0, Draw, ClickPlay False, ClickPlay False,
                                  Tick (1 / 5), Draw, Timeout 0] mounted)) = [1]"
proof -
  let ?init = "step (ClickPlay True) mounted"
  let ?one = "step Draw (step (Tick 0) ?init)"
  let ?stopped = "step (ClickPlay False) ?one"
  let ?again = "step (ClickPlay False) ?stopped"
  let ?two = "step Draw (step (Tick (1 / 5)) ?again)"
  from started_ready have i: "wellformed ?init" "loopRef ?init" "drawQueue ?init = []"
    "timeouts ?init = []"
    unfolding beatReady_def by simp_all
  note a = tick_then_draw [OF i(1,2,3), of 0]
  from a(1,2) have p: "isPlaying ?one" and r: "audioReady ?one"
    unfolding wellformed_def by simp_all
  note st = stop_fields [OF p, of False]
  have idle: "stoppedIdle ?stopped"
    unfolding stoppedIdle_def using st r by simp
  note go = start_fields [OF idle, of False]
  have w: "wellformed ?again"
    by (rule wellformed_step [OF wellformed_step [OF a(1)]])
  have q: "drawQueue ?again = []" "timeouts ?again = timeouts ?one"
    "nextTimerId ?again = nextTimerId ?one"
    by (simp_all add: clickPlay_queues a(3))
  note b = tick_then_draw [OF w go(2) q(1), of "1 / 5"]
  have t2: "map timerId (timeouts ?two) = [0, 1]"
    by (simp add: b(8) q a(8) a(7) i(4) started_fields)
  have mem: "0 \<in> set (map timerId (timeouts ?two))"
    by (simp add: t2)
  note f = fireTimeout_clears(1,3) [OF mem]
  have t3: "map timerId (timeouts (fireTimeout 0 ?two)) = [1]"
    unfolding f(2) by (simp add: b(8) q a(8) a(7) i(4) started_fields)
  have r7: "run [ClickPlay True, Tick 0, Draw, ClickPlay False, ClickPlay False,
                 Tick (1 / 5), Draw] mounted = ?two"
    by (simp add: run_Cons run_Nil)
  have r8: "run [ClickPlay True, Tick 0, Draw, ClickPlay False, ClickPlay False,
                 Tick (1 / 5), Draw, Timeout 0] mounted = fireTimeout 0 ?two"
    by (simp add: run_Cons run_Nil step.simps(8))
  show ?thesis
    unfolding r7 r8 using b(9) t2 f(1) t3 by simp
qed

text \<open>
  C7 does not hold for every interleaving. First run: after the start, tick 0 and its
  visual update run, then tick 1 and its visual update, and only then the timer of tick 0
  fires (it is late by more than 0.2 beats); the flash showing is the one set by tick 1
  (beat index 1), whose own timer (id 1) is still pending, and the timer of tick 0 clears
  it. Second run, with no timer late: the session is stopped and started again before the
  timer of the last tick has fired (stopping cancels no timer); the first tick of the new
  session sets the flash, and the timer left over from the old session clears it while
  the new tick's own timer is still pending.
\<close>

theorem flash_clear_stomps_newer_tick:
  "(beatActive (run [ClickPlay True, Tick 0, Draw, Tick (1 / 2), Draw] mounted)
    \<and> currentBeat (run [ClickPlay True, Tick 0, Draw, Tick (1 / 2), Draw] mounted) = 1
    \<and> map timerId (timeouts (run [ClickPlay True, Tick 0, Draw, Tick (1 / 2), Draw] mounted))
        = [0, 1]
    \<and> \<not> beatActive (run [ClickPlay True, Tick 0, Draw, Tick (1 / 2), Draw, Timeout 0] mounted)
    \<and> map timerId
         (timeouts (run [ClickPlay True, Tick 0, Draw, Tick (1 / 2), Draw, Timeout 0] mounted))
        = [1])
   \<and> (beatActive (run [ClickPlay True, Tick 0, Draw, ClickPlay False, ClickPlay False,
                        Tick (1 / 5), Draw] mounted)
    \<and> map timerId (timeouts (run [ClickPlay True, Tick 0, Draw, ClickPlay False,
                                   ClickPlay False, Tick (1 / 5), Draw] mounted)) = [0, 1]
    \<and> \<not> beatActive (run [ClickPlay True, Tick 0, Draw, ClickPlay False, ClickPlay False,
                           Tick (1 / 5), Draw, Timeout 0] mounted)
    \<and> map timerId (timeouts (run [ClickPlay True, Tick 0, Draw, ClickPlay False,
                                   ClickPlay False, Tick (1 / 5), Draw, Timeout 0] mounted)) = [1])"
  using late_timer_run restart_run by simp

subsection \<open>The marker on an animation frame\<close>

lemma animate_newPos_Inr:
  "animate_newPos 1 p = Inr \<lparr> x = center, y = center \<rparr>"
  "animate_newPos 2 p = Inr \<lparr> x = center - shapeRadius + 2 * shapeRadius * p, y = center \<rparr>"
  by (simp_all add: animate_newPos_def Let_def)

lemma frame_one:
  assumes "isPlaying s" and "audioReady s" and "animationFrameRef s"
    and "numerator (timeSignature s) = 1"
  shows "step Frame s = s\<lparr> lightPosition := \<lparr> x = center, y = center \<rparr>, animationFrameRef := True \<rparr>"
  using assms by (simp add: step.simps(9) animate_def Let_def animate_newPos_Inr)

lemma frame_two:
  assumes "isPlaying s" and "audioReady s" and "animationFrameRef s"
    and "numerator (timeSignature s) = 2"
  shows "step Frame s =
           s\<lparr> lightPosition :=
                \<lparr> x = center - shapeRadius
                       + 2 * shapeRadius
                         * animate_measureProgress (bpmValue (transport s)) 2 (seconds (transport s)),
                  y = center \<rparr>,
              animationFrameRef := True \<rparr>"
  using assms by (simp add: step.simps(9) animate_def Let_def animate_newPos_Inr)

lemma elapse_started:
  assumes "started (transport s)" and "0 \<le> dt"
  shows "step (Elapse dt) s = s\<lparr> transport := (transport s)\<lparr> seconds := seconds (transport s) + dt \<rparr> \<rparr>"
  using assms by (simp add: step.simps(10) elapse_def)

lemma elapse_light:
  "lightPosition (step (Elapse dt) s) = lightPosition s"
  "animationFrameRef (step (Elapse dt) s) = animationFrameRef s"
  "isPlaying (step (Elapse dt) s) = isPlaying s"
  "audioReady (step (Elapse dt) s) = audioReady s"
  "timeSignature (step (Elapse dt) s) = timeSignature s"
  by (simp_all add: step.simps(10) elapse_def)

lemma frac_same_floor:
  fixes a b :: real
  assumes "\<lfloor>a\<rfloor> = \<lfloor>b\<rfloor>"
  shows "frac a = frac b + (a - b)"
  using assms by (simp add: frac_def)


lemma frame_two_timed:
  assumes p: "isPlaying s" and r: "audioReady s" and f: "animationFrameRef s"
    and n: "numerator (timeSignature s) = 2"
    and b: "0 < bpmValue (transport s)" and t: "0 \<le> seconds (transport s)"
  shows "lightPosition (step Frame s) =
           \<lparr> x = center - shapeRadius
                  + 2 * shapeRadius
                    * frac (seconds (transport s) / (2 * (60 / bpmValue (transport s)))),
             y = center \<rparr>"
proof -
  have "animate_measureProgress (bpmValue (transport s)) 2 (seconds (transport s)) =
          frac (seconds (transport s) / (60 / bpmValue (transport s) * of_int 2))"
    using b t by (intro animate_measureProgress_frac) simp_all
  then have "animate_measureProgress (bpmValue (transport s)) 2 (seconds (transport s)) =
          frac (seconds (transport s) / (2 * (60 / bpmValue (transport s))))"
    by (simp add: mult.commute)
  then show ?thesis
    by (simp add: frame_two [OF p r f n])
qed

lemma next_frame_two:
  assumes p: "isPlaying s" and r: "audioReady s" and f: "animationFrameRef s"
    and n: "numerator (timeSignature s) = 2"
    and st: "started (transport s)"
    and b: "0 < bpmValue (transport s)" and t: "0 \<le> seconds (transport s)"
    and dt: "0 < dt"
    and same: "\<lfloor>(seconds (transport s) + dt) / (2 * (60 / bpmValue (transport s)))\<rfloor> =
               \<lfloor>seconds (transport s) / (2 * (60 / bpmValue (transport s)))\<rfloor>"
  shows "lightPosition (step Frame (step (Elapse dt) (step Frame s))) =
           \<lparr> x = x (lightPosition (step Frame s))
                  + 2 * shapeRadius * (dt / (2 * (60 / bpmValue (transport s)))),
             y = center \<rparr>"
proof -
  let ?m = "2 * (60 / bpmValue (transport s))"
  let ?first = "step Frame s"
  let ?later = "step (Elapse dt) ?first"
  have first: "?first =
      s\<lparr> lightPosition :=
           \<lparr> x = center - shapeRadius
                  + 2 * shapeRadius
                    * animate_measureProgress (bpmValue (transport s)) 2 (seconds (transport s)),
             y = center \<rparr>,
         animationFrameRef := True \<rparr>"
    by (rule frame_two [OF p r f n])
  have tr: "transport ?first = transport s" "isPlaying ?first" "audioReady ?first"
    "animationFrameRef ?first" "numerator (timeSignature ?first) = 2"
    using p r n by (simp_all add: first)
  have later: "isPlaying ?later" "audioReady ?later" "animationFrameRef ?later"
    "numerator (timeSignature ?later) = 2"
    using tr by (simp_all add: elapse_light)
  have sec: "seconds (transport ?later) = seconds (transport s) + dt"
    "bpmValue (transport ?later) = bpmValue (transport s)"
    using st dt tr(1) by (simp_all add: step.simps(10) elapse_fields)
  have pos: "0 < bpmValue (transport ?later)" "0 \<le> seconds (transport ?later)"
    using b t dt sec by simp_all
  have one: "x (lightPosition ?first) =
      center - shapeRadius + 2 * shapeRadius * frac (seconds (transport s) / ?m)"
    by (simp add: frame_two_timed [OF p r f n b t])
  have two: "lightPosition (step Frame ?later) =
      \<lparr> x = center - shapeRadius + 2 * shapeRadius * frac ((seconds (transport s) + dt) / ?m),
        y = center \<rparr>"
    using frame_two_timed [OF later pos] by (simp add: sec)
  have "frac ((seconds (transport s) + dt) / ?m) =
          frac (seconds (transport s) / ?m)
          + ((seconds (transport s) + dt) / ?m - seconds (transport s) / ?m)"
    using same by (rule frac_same_floor)
  also have "(seconds (transport s) + dt) / ?m - seconds (transport s) / ?m = dt / ?m"
    by (simp add: algebra_simps)
  finally have "frac ((seconds (transport s) + dt) / ?m) =
      frac (seconds (transport s) / ?m) + dt / ?m" .
  then show ?thesis
    unfolding two one by (simp add: algebra_simps)
qed


text \<open>
  C9. On an animation frame of a playing session with one beat per measure, \<open>animate\<close>
  puts the marker (\<open>lightPosition\<close>) at the fixed centre point, whatever the measure
  progress, and it is still there on a later frame. With two beats it puts the marker at
  \<open>x = center - radius + 2 * radius * p\<close>, \<open>y = center\<close>, where \<open>p\<close> is the measure progress:
  the fraction of the current measure that has elapsed. So the marker is on the
  horizontal segment of length \<open>2 * radius\<close> centred on the centre, at its left end when
  a measure begins and short of its right end throughout; on a later frame within the
  same measure it has moved to the right by \<open>2 * radius\<close> times the share of the measure
  that has passed, and it never moves back within a measure: one left-to-right traversal
  per measure, not a round trip.
\<close>

theorem animate_marker_one_two:
  "(isPlaying s \<and> audioReady s \<and> animationFrameRef s \<longrightarrow>
      (numerator (timeSignature s) = 1 \<longrightarrow>
         lightPosition (step Frame s) = \<lparr> x = center, y = center \<rparr>
       \<and> lightPosition (step Frame (step (Elapse dt) (step Frame s))) =
           \<lparr> x = center, y = center \<rparr>)
    \<and> (numerator (timeSignature s) = 2 \<longrightarrow>
         lightPosition (step Frame s) =
           \<lparr> x = center - shapeRadius
                  + 2 * shapeRadius
                    * animate_measureProgress (bpmValue (transport s)) 2 (seconds (transport s)),
             y = center \<rparr>
       \<and> (started (transport s) \<and> 0 < bpmValue (transport s) \<and> 0 \<le> seconds (transport s) \<longrightarrow>
            (let measure = 2 * (60 / bpmValue (transport s));
                 elapsed = seconds (transport s)
             in lightPosition (step Frame s) =
                  \<lparr> x = center - shapeRadius + 2 * shapeRadius * frac (elapsed / measure),
                    y = center \<rparr>
              \<and> center - shapeRadius \<le> x (lightPosition (step Frame s))
              \<and> x (lightPosition (step Frame s)) < center + shapeRadius
              \<and> (frac (elapsed / measure) = 0 \<longrightarrow>
                   lightPosition (step Frame s) = \<lparr> x = center - shapeRadius, y = center \<rparr>)
              \<and> (0 < dt \<and> \<lfloor>(elapsed + dt) / measure\<rfloor> = \<lfloor>elapsed / measure\<rfloor> \<longrightarrow>
                   lightPosition (step Frame (step (Elapse dt) (step Frame s))) =
                     \<lparr> x = x (lightPosition (step Frame s)) + 2 * shapeRadius * (dt / measure),
                       y = center \<rparr>
                 \<and> x (lightPosition (step Frame s)) <
                     x (lightPosition (step Frame (step (Elapse dt) (step Frame s)))))))))
   \<and> animate_newPos 1 p = Inr \<lparr> x = center, y = center \<rparr>
   \<and> animate_newPos 2 p = Inr \<lparr> x = center - shapeRadius + 2 * shapeRadius * p, y = center \<rparr>
   \<and> (\<forall>q. p < q \<longrightarrow> fst (coords (animate_newPos 2 p)) < fst (coords (animate_newPos 2 q)))
   \<and> (center + shapeRadius) - (center - shapeRadius) = 2 * shapeRadius"
proof -
  have rad: "0 < shapeRadius" by (simp add: shapeRadius_def)
  have one: "lightPosition (step Frame s) = \<lparr> x = center, y = center \<rparr>
       \<and> lightPosition (step Frame (step (Elapse dt) (step Frame s))) =
           \<lparr> x = center, y = center \<rparr>"
    if h: "isPlaying s \<and> audioReady s \<and> animationFrameRef s"
      and n: "numerator (timeSignature s) = 1"
  proof -
    from h have p: "isPlaying s" and r: "audioReady s" and f: "animationFrameRef s"
      by simp_all
    note first = frame_one [OF p r f n]
    have l: "isPlaying (step (Elapse dt) (step Frame s))"
      "audioReady (step (Elapse dt) (step Frame s))"
      "animationFrameRef (step (Elapse dt) (step Frame s))"
      "numerator (timeSignature (step (Elapse dt) (step Frame s))) = 1"
      using p r n by (simp_all add: elapse_light first)
    from frame_one [OF l] first show ?thesis by simp
  qed
  have two: "lightPosition (step Frame s) =
           \<lparr> x = center - shapeRadius
                  + 2 * shapeRadius
                    * animate_measureProgress (bpmValue (transport s)) 2 (seconds (transport s)),
             y = center \<rparr>"
    if h: "isPlaying s \<and> audioReady s \<and> animationFrameRef s"
      and n: "numerator (timeSignature s) = 2"
    using frame_two [of s] h n by simp
  have timed: "lightPosition (step Frame s) =
          \<lparr> x = center - shapeRadius
                 + 2 * shapeRadius
                   * frac (seconds (transport s) / (2 * (60 / bpmValue (transport s)))),
            y = center \<rparr>
      \<and> center - shapeRadius \<le> x (lightPosition (step Frame s))
      \<and> x (lightPosition (step Frame s)) < center + shapeRadius
      \<and> (frac (seconds (transport s) / (2 * (60 / bpmValue (transport s)))) = 0 \<longrightarrow>
           lightPosition (step Frame s) = \<lparr> x = center - shapeRadius, y = center \<rparr>)
      \<and> (0 < dt \<and> \<lfloor>(seconds (transport s) + dt) / (2 * (60 / bpmValue (transport s)))\<rfloor> =
                     \<lfloor>seconds (transport s) / (2 * (60 / bpmValue (transport s)))\<rfloor> \<longrightarrow>
           lightPosition (step Frame (step (Elapse dt) (step Frame s))) =
             \<lparr> x = x (lightPosition (step Frame s))
                    + 2 * shapeRadius * (dt / (2 * (60 / bpmValue (transport s)))),
               y = center \<rparr>
         \<and> x (lightPosition (step Frame s)) <
             x (lightPosition (step Frame (step (Elapse dt) (step Frame s)))))"
    if h: "isPlaying s \<and> audioReady s \<and> animationFrameRef s"
      and n: "numerator (timeSignature s) = 2"
      and c: "started (transport s) \<and> 0 < bpmValue (transport s) \<and> 0 \<le> seconds (transport s)"
  proof -
    from h have p: "isPlaying s" and r: "audioReady s" and f: "animationFrameRef s"
      by simp_all
    from c have st: "started (transport s)" and b: "0 < bpmValue (transport s)"
      and t: "0 \<le> seconds (transport s)"
      by simp_all
    let ?m = "2 * (60 / bpmValue (transport s))"
    let ?fr = "frac (seconds (transport s) / ?m)"
    note pos = frame_two_timed [OF p r f n b t]
    have fr: "0 \<le> ?fr" "?fr < 1"
      by (simp_all add: frac_lt_1)
    have lo: "center - shapeRadius \<le> x (lightPosition (step Frame s))"
      using fr(1) rad by (simp add: pos)
    have "2 * shapeRadius * ?fr < 2 * shapeRadius * 1"
      using fr(2) rad by (intro mult_strict_left_mono) simp_all
    then have hi: "x (lightPosition (step Frame s)) < center + shapeRadius"
      by (simp add: pos)
    have left: "lightPosition (step Frame s) = \<lparr> x = center - shapeRadius, y = center \<rparr>"
      if "?fr = 0"
      using that by (simp add: pos)
    have nxt: "lightPosition (step Frame (step (Elapse dt) (step Frame s))) =
             \<lparr> x = x (lightPosition (step Frame s)) + 2 * shapeRadius * (dt / ?m),
               y = center \<rparr>
         \<and> x (lightPosition (step Frame s)) <
             x (lightPosition (step Frame (step (Elapse dt) (step Frame s))))"
      if d: "0 < dt \<and> \<lfloor>(seconds (transport s) + dt) / ?m\<rfloor> = \<lfloor>seconds (transport s) / ?m\<rfloor>"
    proof -
      from d have dt: "0 < dt" and same: "\<lfloor>(seconds (transport s) + dt) / ?m\<rfloor> =
          \<lfloor>seconds (transport s) / ?m\<rfloor>"
        by simp_all
      note e = next_frame_two [OF p r f n st b t dt same]
      have "0 < 2 * shapeRadius * (dt / ?m)"
        using rad dt b by simp
      then show ?thesis
        by (simp add: e)
    qed
    from pos lo hi left nxt show ?thesis by blast
  qed
  have pure: "animate_newPos 1 p = Inr \<lparr> x = center, y = center \<rparr>
   \<and> animate_newPos 2 p = Inr \<lparr> x = center - shapeRadius + 2 * shapeRadius * p, y = center \<rparr>
   \<and> (\<forall>q. p < q \<longrightarrow> fst (coords (animate_newPos 2 p)) < fst (coords (animate_newPos 2 q)))
   \<and> (center + shapeRadius) - (center - shapeRadius) = 2 * shapeRadius"
    using rad by (simp add: animate_newPos_Inr coords_def)
  show ?thesis
    unfolding Let_def using one two timed pure by blast
qed


lemma effect_frame:
  "animationFrameRef (updateBpmEffect s) = animationFrameRef s"
  "animationFrameRef (animationEffect s) = (isPlaying s \<and> audioReady s)"
  "animationFrameRef (setupLoopEffect s) = animationFrameRef s"
  by (auto simp add: updateBpmEffect_def animationEffect_def setupLoopEffect_def Let_def)

lemma start_frame:
  assumes "\<not> isPlaying s"
  shows "animationFrameRef (step (ClickPlay True) s)"
  using assms unfolding step.simps runEffects_def Let_def
  by (simp add: handlePlayToggle_fields effect_fields effect_frame)

text \<open>A session with \<open>4 + d\<close> beats per measure, set while stopped and then started.\<close>

lemma prepared_fields:
  "isPlaying (step (ClickPlay True) (step (ClickArrow BeatsControl d) mounted))"
  "audioReady (step (ClickPlay True) (step (ClickArrow BeatsControl d) mounted))"
  "animationFrameRef (step (ClickPlay True) (step (ClickArrow BeatsControl d) mounted))"
  "numerator (timeSignature (step (ClickPlay True) (step (ClickArrow BeatsControl d) mounted))) =
     min 12 (max 1 (4 + d))"
  "started (transport (step (ClickPlay True) (step (ClickArrow BeatsControl d) mounted)))"
  "bpmValue (transport (step (ClickPlay True) (step (ClickArrow BeatsControl d) mounted))) = 120"
  "seconds (transport (step (ClickPlay True) (step (ClickArrow BeatsControl d) mounted))) = 0"
proof -
  let ?pre = "step (ClickArrow BeatsControl d) mounted"
  have pre: "\<not> isPlaying ?pre" "\<not> audioReady ?pre" "bpm ?pre = 120"
    "numerator (timeSignature ?pre) = min 12 (max 1 (4 + d))"
    "seconds (transport ?pre) = 0"
    by (simp_all add: step.simps(2) runEffects_fields arrowClick_fields mounted_fields)
  show "isPlaying (step (ClickPlay True) ?pre)"
    "audioReady (step (ClickPlay True) ?pre)"
    "numerator (timeSignature (step (ClickPlay True) ?pre)) = min 12 (max 1 (4 + d))"
    "started (transport (step (ClickPlay True) ?pre))"
    "bpmValue (transport (step (ClickPlay True) ?pre)) = 120"
    "seconds (transport (step (ClickPlay True) ?pre)) = 0"
    using pre
    by (simp_all add: step.simps(1) runEffects_fields handlePlayToggle_fields loopDepsChanged_def)
  show "animationFrameRef (step (ClickPlay True) ?pre)"
    using pre(1) by (rule start_frame)
qed

theorem animate_marker_one_two_witness:
  "isPlaying (step (ClickPlay True) (step (ClickArrow BeatsControl (- 3)) mounted))
   \<and> numerator (timeSignature
        (step (ClickPlay True) (step (ClickArrow BeatsControl (- 3)) mounted))) = 1
   \<and> lightPosition (step Frame
        (step (ClickPlay True) (step (ClickArrow BeatsControl (- 3)) mounted))) =
       \<lparr> x = 210, y = 210 \<rparr>
   \<and> isPlaying (step (ClickPlay True) (step (ClickArrow BeatsControl (- 2)) mounted))
   \<and> numerator (timeSignature
        (step (ClickPlay True) (step (ClickArrow BeatsControl (- 2)) mounted))) = 2
   \<and> started (transport (step (ClickPlay True) (step (ClickArrow BeatsControl (- 2)) mounted)))
   \<and> lightPosition (step Frame
        (step (ClickPlay True) (step (ClickArrow BeatsControl (- 2)) mounted))) =
       \<lparr> x = 60, y = 210 \<rparr>
   \<and> lightPosition (step Frame (step (Elapse (1 / 4)) (step Frame
        (step (ClickPlay True) (step (ClickArrow BeatsControl (- 2)) mounted))))) =
       \<lparr> x = 135, y = 210 \<rparr>"
proof -
  let ?one = "step (ClickPlay True) (step (ClickArrow BeatsControl (- 3)) mounted)"
  let ?two = "step (ClickPlay True) (step (ClickArrow BeatsControl (- 2)) mounted)"
  note f1 = prepared_fields [of "- 3"]
  note f2 = prepared_fields [of "- 2"]
  have h1: "isPlaying ?one \<and> audioReady ?one \<and> animationFrameRef ?one"
    using f1 by simp
  have n1: "numerator (timeSignature ?one) = 1"
    using f1 by simp
  have h2: "isPlaying ?two \<and> audioReady ?two \<and> animationFrameRef ?two"
    using f2 by simp
  have n2: "numerator (timeSignature ?two) = 2"
    using f2 by simp
  have c2: "started (transport ?two) \<and> 0 < bpmValue (transport ?two)
            \<and> 0 \<le> seconds (transport ?two)"
    using f2 by simp
  note t1 = animate_marker_one_two [of ?one 0 0, THEN conjunct1, THEN mp, OF h1,
      THEN conjunct1, THEN mp, OF n1, THEN conjunct1]
  note t2 = animate_marker_one_two [of ?two "1 / 4" 0, unfolded Let_def, THEN conjunct1,
      THEN mp, OF h2, THEN conjunct2, THEN mp, OF n2, THEN conjunct2, THEN mp, OF c2]
  have a: "lightPosition (step Frame ?one) = \<lparr> x = 210, y = 210 \<rparr>"
    using t1 by (simp add: center_def svgSize_def)
  have b: "lightPosition (step Frame ?two) = \<lparr> x = 60, y = 210 \<rparr>"
    using t2 [THEN conjunct1] by (simp add: f2 center_def svgSize_def shapeRadius_def)
  have d: "(0::real) < 1 / 4
      \<and> \<lfloor>(seconds (transport ?two) + 1 / 4) / (2 * (60 / bpmValue (transport ?two)))\<rfloor> =
        \<lfloor>seconds (transport ?two) / (2 * (60 / bpmValue (transport ?two)))\<rfloor>"
    by (simp add: f2)
  have c: "lightPosition (step Frame (step (Elapse (1 / 4)) (step Frame ?two))) =
       \<lparr> x = 135, y = 210 \<rparr>"
    using t2 [THEN conjunct2, THEN conjunct2, THEN conjunct2, THEN conjunct2, THEN mp, OF d,
        THEN conjunct1]
    by (simp add: b f2 shapeRadius_def center_def svgSize_def)
  from f1 f2 a b c show ?thesis by simp
qed

section \<open>The mobile audio unlock: verified properties\<close>

lemma firstResolve_settles:
  "firstResolve calls = Pending \<or> (\<exists>t v. firstResolve calls = Resolves t v)"
  by (induction calls rule: firstResolve.induct) (auto split: promise.splits)

lemma firstResolve_bound:
  "(t, v) \<in> set calls \<Longrightarrow> \<exists>t' v'. firstResolve calls = Resolves t' v' \<and> t' \<le> t"
  by (induction calls rule: firstResolve.induct) (auto split: promise.splits)

lemma playSilentHtmlAudio_settles:
  "playSilentHtmlAudio env = Pending \<or> (\<exists>t v. playSilentHtmlAudio env = Resolves t v)"
  using firstResolve_settles by (auto simp add: playSilentHtmlAudio_def)

lemma playSilentBuffer_resolves:
  "\<exists>t v. playSilentBuffer audioContext env = Resolves t v \<and> t \<le> 50"
proof -
  have "\<exists>t' v'. firstResolve (eventCall (onendedAt env) True @ [(50, True)]) = Resolves t' v'
          \<and> t' \<le> 50"
    by (rule firstResolve_bound [of 50 True]) simp
  then show ?thesis
    by (auto simp add: playSilentBuffer_def split: option.splits)
qed

lemma withTimeout_Resolves:
  "d < now + timeoutMs \<Longrightarrow>
     withTimeout now (Resolves d v) timeoutMs fallbackValue = Resolves d v"
  by (simp add: withTimeout_def)

text \<open>A step under its timeout resolves within the timeout unless the step rejects.\<close>

lemma withTimeout_resolves:
  assumes "promise = Pending \<or> (\<exists>t v. promise = Resolves t v)"
  shows "\<exists>t v. withTimeout now promise timeoutMs fallbackValue = Resolves t v
           \<and> t \<le> now + timeoutMs"
  using assms by (auto simp add: withTimeout_def)

text \<open>
  The two unlock steps always settle together within one inner timeout, so the outer
  timer around them never decides the race.
\<close>

lemma unlock_pair:
  "\<exists>t h b.
     promiseAll (withTimeout 0 (playSilentHtmlAudio html) UNLOCK_TIMEOUT False)
       (withTimeout 0 (playSilentBuffer audioContext buf) UNLOCK_TIMEOUT False) =
       Resolves t (h, b)
     \<and> t \<le> UNLOCK_TIMEOUT"
proof -
  obtain t1 h where h: "withTimeout 0 (playSilentHtmlAudio html) UNLOCK_TIMEOUT False = Resolves t1 h"
    and t1: "t1 \<le> 0 + UNLOCK_TIMEOUT"
    using withTimeout_resolves [OF playSilentHtmlAudio_settles] by blast
  obtain d v where "playSilentBuffer audioContext buf = Resolves d v"
    using playSilentBuffer_resolves by blast
  then have "playSilentBuffer audioContext buf = Pending
             \<or> (\<exists>t v. playSilentBuffer audioContext buf = Resolves t v)"
    by blast
  from withTimeout_resolves [OF this]
  obtain t2 b where b: "withTimeout 0 (playSilentBuffer audioContext buf) UNLOCK_TIMEOUT False =
      Resolves t2 b"
    and t2: "t2 \<le> 0 + UNLOCK_TIMEOUT"
    by blast
  from t1 t2 show ?thesis
    by (simp add: h b)
qed

lemma unlock_pair_outer:
  "withTimeout 0
     (promiseAll (withTimeout 0 (playSilentHtmlAudio html) UNLOCK_TIMEOUT False)
        (withTimeout 0 (playSilentBuffer audioContext buf) UNLOCK_TIMEOUT False))
     (UNLOCK_TIMEOUT + 100) (False, False) =
   promiseAll (withTimeout 0 (playSilentHtmlAudio html) UNLOCK_TIMEOUT False)
     (withTimeout 0 (playSilentBuffer audioContext buf) UNLOCK_TIMEOUT False)"
proof -
  from unlock_pair [of html audioContext buf] obtain t h b where
    "promiseAll (withTimeout 0 (playSilentHtmlAudio html) UNLOCK_TIMEOUT False)
       (withTimeout 0 (playSilentBuffer audioContext buf) UNLOCK_TIMEOUT False) =
       Resolves t (h, b)" and "t \<le> UNLOCK_TIMEOUT"
    by blast
  then show ?thesis
    by (simp add: withTimeout_def)
qed

lemma unlock_try_cases:
  "(\<exists>t success. unlock_try audioContext html buf = Returns t success
        \<and> t \<le> UNLOCK_TIMEOUT + UNLOCK_TIMEOUT)
   \<or> (\<exists>t c. unlock_try audioContext html buf = Throws t \<and> audioContext = Some c
          \<and> resumeInTry c = ResumeThrows)"
proof -
  from unlock_pair [of html audioContext buf] obtain t1 h b where
    p: "promiseAll (withTimeout 0 (playSilentHtmlAudio html) UNLOCK_TIMEOUT False)
       (withTimeout 0 (playSilentBuffer audioContext buf) UNLOCK_TIMEOUT False) =
       Resolves t1 (h, b)" and t1: "t1 \<le> UNLOCK_TIMEOUT"
    by blast
  have o: "withTimeout 0
     (promiseAll (withTimeout 0 (playSilentHtmlAudio html) UNLOCK_TIMEOUT False)
        (withTimeout 0 (playSilentBuffer audioContext buf) UNLOCK_TIMEOUT False))
     (UNLOCK_TIMEOUT + 100) (False, False) = Resolves t1 (h, b)"
    unfolding p using t1 by (simp add: withTimeout_Resolves)
  have u: "unlock_try audioContext html buf =
     (case audioContext of
        None \<Rightarrow> Returns t1 (h \<or> b)
      | Some c \<Rightarrow>
          if stateAt c t1 = Suspended then
            (case resumeInTry c of
               ResumeThrows \<Rightarrow> Throws t1
             | result \<Rightarrow>
                 (case withTimeout t1
                         (case result of
                            ResumeResolves d \<Rightarrow> Resolves (t1 + d) ()
                          | ResumeRejects d \<Rightarrow> Resolves (t1 + d) ()
                          | other \<Rightarrow> Pending)
                         UNLOCK_TIMEOUT () of
                    Pending \<Rightarrow> Hangs
                  | Rejects t \<Rightarrow> Throws t
                  | Resolves t2 u \<Rightarrow> Returns t2 (h \<or> b \<or> stateAt c t2 = Running)))
          else Returns t1 (h \<or> b \<or> stateAt c t1 = Running))"
    unfolding unlock_try_def o by simp
  show ?thesis
  proof (cases audioContext)
    case None
    with t1 u show ?thesis
      by simp
  next
    case (Some c)
    show ?thesis
    proof (cases "stateAt c t1 = Suspended")
      case False
      with Some t1 u show ?thesis
        by simp
    next
      case True
      show ?thesis
      proof (cases "resumeInTry c")
        case ResumeThrows
        with Some True u show ?thesis
          by simp
      next
        case (ResumeResolves d)
        with Some True t1 u show ?thesis
          by (simp add: withTimeout_def)
      next
        case (ResumeRejects d)
        with Some True t1 u show ?thesis
          by (simp add: withTimeout_def)
      next
        case ResumePending
        with Some True t1 u show ?thesis
          by (simp add: withTimeout_def)
      qed
    qed
  qed
qed

lemma unlock_catch_no_throw: "unlock_catch audioContext t \<noteq> Throws t'"
  by (simp add: unlock_catch_def split: option.splits resume_result.splits)

lemma unlock_no_throw: "unlockMobileAudio audioContext html buf \<noteq> Throws t"
  using unlock_try_cases [of audioContext html buf]
  by (auto simp add: unlockMobileAudio_def unlock_catch_no_throw)


lemma unlock_returns:
  assumes "\<forall>c. audioContext = Some c \<longrightarrow> resumeInTry c \<noteq> ResumeThrows"
  shows "\<exists>t success. unlockMobileAudio audioContext html buf = Returns t success
           \<and> t \<le> UNLOCK_TIMEOUT + UNLOCK_TIMEOUT"
  using unlock_try_cases [of audioContext html buf] assms
  by (auto simp add: unlockMobileAudio_def)

text \<open>
  C8 (as amended). When \<^verbatim>\<open>resume()\<close> does not throw in the \<^verbatim>\<open>try\<close> block (it is
  specified to return a promise), every call of \<open>unlockMobileAudio\<close> returns within
  \<open>UNLOCK_TIMEOUT + UNLOCK_TIMEOUT\<close> = 1000 ms: the two unlock steps run concurrently,
  each under its own timeout of 500 ms, so together they settle within 500 ms; the outer
  timeout of 600 ms wraps only this pair, is greater than each inner timeout (not than
  their sum) and therefore never decides the race; the resume step that follows has its
  own timeout of 500 ms. No call throws: a step that throws resolves as failed.
\<close>

theorem unlock_bounded:
  "((\<forall>c. audioContext = Some c \<longrightarrow> resumeInTry c \<noteq> ResumeThrows) \<longrightarrow>
      (\<exists>t success. unlockMobileAudio audioContext html buf = Returns t success
          \<and> t \<le> UNLOCK_TIMEOUT + UNLOCK_TIMEOUT))
   \<and> (\<forall>t. unlockMobileAudio audioContext html buf \<noteq> Throws t)
   \<and> (\<exists>t h b.
         promiseAll (withTimeout 0 (playSilentHtmlAudio html) UNLOCK_TIMEOUT False)
           (withTimeout 0 (playSilentBuffer audioContext buf) UNLOCK_TIMEOUT False) =
           Resolves t (h, b)
         \<and> t \<le> UNLOCK_TIMEOUT)
   \<and> withTimeout 0
         (promiseAll (withTimeout 0 (playSilentHtmlAudio html) UNLOCK_TIMEOUT False)
            (withTimeout 0 (playSilentBuffer audioContext buf) UNLOCK_TIMEOUT False))
         (UNLOCK_TIMEOUT + 100) (False, False) =
       promiseAll (withTimeout 0 (playSilentHtmlAudio html) UNLOCK_TIMEOUT False)
         (withTimeout 0 (playSilentBuffer audioContext buf) UNLOCK_TIMEOUT False)
   \<and> UNLOCK_TIMEOUT < UNLOCK_TIMEOUT + 100
   \<and> playSilentHtmlAudio (html\<lparr> audioThrows := True \<rparr>) = Resolves 0 False
   \<and> playSilentBuffer audioContext (buf\<lparr> bufferThrows := True \<rparr>) = Resolves 0 False"
proof -
  have a: "(\<forall>c. audioContext = Some c \<longrightarrow> resumeInTry c \<noteq> ResumeThrows) \<longrightarrow>
      (\<exists>t success. unlockMobileAudio audioContext html buf = Returns t success
          \<and> t \<le> UNLOCK_TIMEOUT + UNLOCK_TIMEOUT)"
    using unlock_returns by blast
  have b: "\<forall>t. unlockMobileAudio audioContext html buf \<noteq> Throws t"
    using unlock_no_throw by blast
  have c: "playSilentHtmlAudio (html\<lparr> audioThrows := True \<rparr>) = Resolves 0 False"
    by (simp add: playSilentHtmlAudio_def)
  have d: "playSilentBuffer audioContext (buf\<lparr> bufferThrows := True \<rparr>) = Resolves 0 False"
    by (simp add: playSilentBuffer_def split: option.splits)
  from a b c d unlock_pair [of html audioContext buf] unlock_pair_outer [of html audioContext buf]
  show ?thesis by simp
qed

lemma silent_fields:
  "playSilentHtmlAudio silentHtmlAudio = Pending"
  "playSilentBuffer (Some silentContext) silentBuffer = Resolves 50 True"
  "stateAt silentContext t = Suspended"
  "resumeInTry silentContext = ResumePending"
  by (simp_all add: playSilentHtmlAudio_def playSilentBuffer_def silentHtmlAudio_def
        silentBuffer_def silentContext_def eventCall_def)

lemma unlock_silent:
  "unlockMobileAudio (Some silentContext) silentHtmlAudio silentBuffer = Returns 1000 True"
  by (simp add: unlockMobileAudio_def unlock_try_def silent_fields withTimeout_def
        UNLOCK_TIMEOUT_def)

theorem unlock_bounded_witness:
  "resumeInTry silentContext \<noteq> ResumeThrows
   \<and> unlockMobileAudio (Some silentContext) silentHtmlAudio silentBuffer = Returns 1000 True
   \<and> (1000::nat) \<le> UNLOCK_TIMEOUT + UNLOCK_TIMEOUT"
proof -
  have h: "\<forall>c. Some silentContext = Some c \<longrightarrow> resumeInTry c \<noteq> ResumeThrows"
    by (simp add: silent_fields)
  from unlock_bounded [of "Some silentContext" silentHtmlAudio silentBuffer, THEN conjunct1,
      THEN mp, OF h]
  obtain t success where
    "unlockMobileAudio (Some silentContext) silentHtmlAudio silentBuffer = Returns t success"
    and "t \<le> UNLOCK_TIMEOUT + UNLOCK_TIMEOUT"
    by blast
  with h show ?thesis
    by (simp add: unlock_silent)
qed

text \<open>
  C8 does not hold with the outer timeout as the ceiling of the whole call. In a browser
  in which nothing answers, the silent audio element is given up after 500 ms, the
  context is still suspended, and \<^verbatim>\<open>resume()\<close> is given up 500 ms later: the call
  returns after 1000 ms, beyond the 600 ms of the outer timeout, which is itself less
  than the sum of the two inner timeouts it wraps.
\<close>

theorem unlock_exceeds_outer_timeout:
  "unlockMobileAudio (Some silentContext) silentHtmlAudio silentBuffer = Returns 1000 True
   \<and> \<not> (1000 \<le> UNLOCK_TIMEOUT + 100)
   \<and> \<not> (UNLOCK_TIMEOUT + UNLOCK_TIMEOUT < UNLOCK_TIMEOUT + 100)"
  by (simp add: unlockMobileAudio_def unlock_try_def silent_fields withTimeout_def
        UNLOCK_TIMEOUT_def)

text \<open>
  The \<^verbatim>\<open>catch\<close> block awaits \<^verbatim>\<open>resume()\<close> with no timeout: were \<^verbatim>\<open>resume()\<close> to throw
  in the \<^verbatim>\<open>try\<close> block and then return a promise that never settles, the call would not
  complete.
\<close>

lemma unlock_catch_unbounded:
  "unlockMobileAudio (Some (silentContext\<lparr> resumeInTry := ResumeThrows \<rparr>)) silentHtmlAudio
     silentBuffer = Hangs"
  by (simp add: unlockMobileAudio_def unlock_try_def unlock_catch_def playSilentHtmlAudio_def
        playSilentBuffer_def silentHtmlAudio_def silentBuffer_def silentContext_def eventCall_def
        withTimeout_def UNLOCK_TIMEOUT_def)

end
